theory Spec2Isabelle
  imports Complex_Main "HOL-Library.Multiset" "HOL-Library.Product_Lexorder"
    "HOL-Library.List_Lexorder" "HOL-Library.Log_Nat"
begin

section \<open>Double-precision rounding\<close>

text \<open>
  The numbers of JavaScript are IEEE-754 doubles. \<open>dbl x\<close> is the double nearest to the
  real \<open>x\<close>, a tie going to the even significand, with the exponent range unbounded
  above (overflow is decided afterwards, in \<open>mkNum\<close>) and the subnormal grid \<open>2^-1074\<close>
  below. \<open>expo x\<close> is the exponent of the binade of \<open>x\<close>, not below \<open>-1022\<close>; \<open>ulp x\<close> is
  the spacing of the doubles there; \<open>rne\<close> rounds a real to the nearest integer, a tie
  going to the even one.
\<close>

definition expo :: "real \<Rightarrow> int" where
  "expo x = max (bitlen \<lfloor>\<bar>x\<bar> * 2 ^ 1100\<rfloor> - 1101) (- 1022)"

definition ulp :: "real \<Rightarrow> real" where
  "ulp x = 2 powi (expo x - 52)"

definition rne :: "real \<Rightarrow> int" where
  "rne y =
     (let f = \<lfloor>y\<rfloor>; d = y - of_int f
      in if d < 1 / 2 then f else if 1 / 2 < d then f + 1 else if even f then f else f + 1)"

definition dbl :: "real \<Rightarrow> real" where
  "dbl x = of_int (rne (x / ulp x)) * ulp x"

section \<open>JavaScript numbers and values\<close>

text \<open>
  A JavaScript number is \<open>NaN\<close>, one of the two infinities, or a finite double \<open>Fin x\<close>.
  Each arithmetic operation on finite numbers rounds the exact result to the nearest
  double and overflows to an infinity from \<open>2^1024 - 2^970\<close> on, the smallest magnitude
  that rounds to infinity. The sign of zero is not modelled.
\<close>

datatype jsnum = NaN | PInf | NInf | Fin real

definition dbl_overflow :: real where
  "dbl_overflow = 2 ^ 1024 - 2 ^ 970"

definition mkNum :: "real \<Rightarrow> jsnum" where
  "mkNum x = (if dbl_overflow \<le> x then PInf
              else if x \<le> - dbl_overflow then NInf
              else Fin x)"

text \<open>A decimal literal, or a number of a JSON text: the double nearest to it.\<close>

definition lit :: "real \<Rightarrow> jsnum" where
  "lit x = mkNum (dbl x)"

text \<open>The operator \<open>*\<close> on numbers.\<close>

fun jsMul :: "jsnum \<Rightarrow> jsnum \<Rightarrow> jsnum" where
  "jsMul (Fin a) (Fin b) = mkNum (dbl (a * b))"
| "jsMul NaN y = NaN"
| "jsMul x NaN = NaN"
| "jsMul PInf (Fin b) = (if b = 0 then NaN else if 0 < b then PInf else NInf)"
| "jsMul NInf (Fin b) = (if b = 0 then NaN else if 0 < b then NInf else PInf)"
| "jsMul (Fin a) PInf = (if a = 0 then NaN else if 0 < a then PInf else NInf)"
| "jsMul (Fin a) NInf = (if a = 0 then NaN else if 0 < a then NInf else PInf)"
| "jsMul PInf PInf = PInf"
| "jsMul PInf NInf = NInf"
| "jsMul NInf PInf = NInf"
| "jsMul NInf NInf = PInf"

text \<open>The operator \<open>+\<close> on numbers.\<close>

fun jsAdd :: "jsnum \<Rightarrow> jsnum \<Rightarrow> jsnum" where
  "jsAdd (Fin a) (Fin b) = mkNum (dbl (a + b))"
| "jsAdd NaN y = NaN"
| "jsAdd x NaN = NaN"
| "jsAdd PInf NInf = NaN"
| "jsAdd NInf PInf = NaN"
| "jsAdd PInf y = PInf"
| "jsAdd NInf y = NInf"
| "jsAdd (Fin a) PInf = PInf"
| "jsAdd (Fin a) NInf = NInf"

text \<open>The operator \<open>/\<close> on numbers; a zero divisor is taken as \<open>+0\<close>.\<close>

fun jsDiv :: "jsnum \<Rightarrow> jsnum \<Rightarrow> jsnum" where
  "jsDiv (Fin a) (Fin b) =
     (if b = 0 then (if a = 0 then NaN else if 0 < a then PInf else NInf)
      else mkNum (dbl (a / b)))"
| "jsDiv NaN y = NaN"
| "jsDiv x NaN = NaN"
| "jsDiv (Fin a) PInf = Fin 0"
| "jsDiv (Fin a) NInf = Fin 0"
| "jsDiv PInf (Fin b) = (if 0 \<le> b then PInf else NInf)"
| "jsDiv NInf (Fin b) = (if 0 \<le> b then NInf else PInf)"
| "jsDiv PInf PInf = NaN"
| "jsDiv PInf NInf = NaN"
| "jsDiv NInf PInf = NaN"
| "jsDiv NInf NInf = NaN"


text \<open>
  \<open>Math.round\<close>: the nearest integer, a tie going towards \<open>+\<infinity>\<close>; \<open>Math.ceil\<close>: the least
  integer not below. Both are exact: an integer next to a double is a double.
\<close>

fun Math_round :: "jsnum \<Rightarrow> jsnum" where
  "Math_round (Fin a) = Fin (of_int \<lfloor>a + 1 / 2\<rfloor>)"
| "Math_round x = x"


definition isNaN :: "jsnum \<Rightarrow> bool" where
  "isNaN x = (x = NaN)"

text \<open>Truthiness of a number, and the operator \<open>||\<close> between two numbers.\<close>

definition truthy :: "jsnum \<Rightarrow> bool" where
  "truthy x = (x \<noteq> NaN \<and> x \<noteq> Fin 0)"

definition jsOr :: "jsnum \<Rightarrow> jsnum \<Rightarrow> jsnum" where
  "jsOr x y = (if truthy x then x else y)"

text \<open>
  The values a record field or a piece of state can hold. \<open>Number(v)\<close> on a string is
  ECMAScript's StringToNumber, a builtin of the language: it is the parameter \<open>s2n\<close>.
\<close>

datatype jsval = Undefined | Null | Bool bool | Num jsnum | Str string

fun Number :: "(string \<Rightarrow> jsnum) \<Rightarrow> jsval \<Rightarrow> jsnum" where
  "Number s2n Undefined = NaN"
| "Number s2n Null = Fin 0"
| "Number s2n (Bool b) = (if b then Fin 1 else Fin 0)"
| "Number s2n (Num n) = n"
| "Number s2n (Str s) = s2n s"

text \<open>
  A conversion to put in place of \<open>s2n\<close> where a statement about string-free inputs
  has to be closed; it reads every string as not a number.
\<close>

definition s2n_unparsed :: "string \<Rightarrow> jsnum" where
  "s2n_unparsed s = NaN"

section \<open>Data model (src/types.ts)\<close>

text \<open>
  The client's \<open>Product\<close>; the field \<open>id\<close> is \<open>prod_id\<close> here. The numeric fields arrive
  from JSON and are read through \<open>Number\<close>, so they are kept as values.
\<close>

record product =
  prod_id :: int
  category_id :: int
  category_name :: string
  category_sort_order :: int
  name :: string
  cost_usd :: jsval
  profit_syp :: jsval
  wholesale_profit_syp :: jsval
  carton_usd :: jsval
  wholesale_carton_usd :: jsval
  is_hidden :: int

section \<open>Price calculator (calculateSYP)\<close>

definition rate_of :: "(string \<Rightarrow> jsnum) \<Rightarrow> jsval \<Rightarrow> jsnum" where
  "rate_of s2n globalRate = jsOr (Number s2n globalRate) (Fin 0)"

definition costUsd_of :: "(string \<Rightarrow> jsnum) \<Rightarrow> product \<Rightarrow> jsnum" where
  "costUsd_of s2n p =
     jsOr (jsOr (Number s2n (cost_usd p)) (Number s2n (carton_usd p))) (Fin 0)"

definition profit_of :: "(string \<Rightarrow> jsnum) \<Rightarrow> product \<Rightarrow> jsnum" where
  "profit_of s2n p = jsOr (Number s2n (profit_syp p)) (Fin 0)"

definition base_of :: "(string \<Rightarrow> jsnum) \<Rightarrow> jsval \<Rightarrow> product \<Rightarrow> jsnum" where
  "base_of s2n globalRate p =
     jsAdd (jsMul (costUsd_of s2n p) (rate_of s2n globalRate)) (profit_of s2n p)"

definition calculateSYP :: "(string \<Rightarrow> jsnum) \<Rightarrow> jsval \<Rightarrow> product \<Rightarrow> jsnum" where
  "calculateSYP s2n globalRate p =
     (let base = base_of s2n globalRate p;
          result = jsMul (Math_round (jsDiv base (Fin 500))) (Fin 500)
      in if isNaN result then Fin 0 else result)"



text \<open>A number that is neither \<open>NaN\<close> nor below zero.\<close>

definition nonneg :: "jsnum \<Rightarrow> bool" where
  "nonneg x = (case x of Fin a \<Rightarrow> 0 \<le> a | PInf \<Rightarrow> True | NInf \<Rightarrow> False | NaN \<Rightarrow> False)"

text \<open>A product whose fields other than the three priced ones are fixed.\<close>

definition priced_product :: "jsval \<Rightarrow> jsval \<Rightarrow> jsval \<Rightarrow> product" where
  "priced_product cost carton profit =
     \<lparr>prod_id = 1, category_id = 1, category_name = ''c'', category_sort_order = 0,
      name = ''n'', cost_usd = cost, profit_syp = profit,
      wholesale_profit_syp = Num (Fin 250), carton_usd = carton,
      wholesale_carton_usd = Num (Fin 0), is_hidden = 0\<rparr>"

section \<open>Numeric input (parseNumber)\<close>






section \<open>Column registry: the first value of visibleColumns\<close>

datatype json = JNull | JBool bool | JNumber real | JString string
  | JArray "json list" | JObject "(string \<times> json) list"

text \<open>
  What \<open>localStorage.getItem('visibleColumns')\<close> holds, by what the initializer makes of
  it: nothing or the empty text (\<open>NoItem\<close>), a text on which \<open>JSON.parse\<close> throws
  (\<open>Unparsable\<close>), or a text that parses to a value.
\<close>

datatype stored = NoItem | Unparsable | Parsed json

definition DEFAULT_COLUMNS :: "string list" where
  "DEFAULT_COLUMNS = [''name'', ''syp_final'', ''cost_usd'', ''profit_syp'',
     ''wholesale_carton_usd'', ''lsg'', ''case_usd'', ''wholesale_case_usd'']"

definition DEFAULT_VISIBLE :: "string list" where
  "DEFAULT_VISIBLE = [''name'', ''syp_final'', ''cost_usd'', ''profit_syp'',
     ''wholesale_carton_usd'', ''lsg'']"

text \<open>\<open>s.includes(q)\<close> on strings: \<open>q\<close> occurs in \<open>s\<close> as a contiguous piece.\<close>

fun includes_str :: "string \<Rightarrow> string \<Rightarrow> bool" where
  "includes_str [] q = (q = [])"
| "includes_str (c # s) q = (take (length q) (c # s) = q \<or> includes_str s q)"

text \<open>
  The initializer. Reading \<open>length\<close> of \<open>null\<close> throws; on a boolean, a number or an
  object \<open>includes\<close> is not a function (or \<open>length\<close> is 0): each of these ends in the
  \<open>catch\<close> branch or in the reset, with the default. A parsed string has both
  \<open>length\<close> and \<open>includes\<close> and can be returned as it is.
\<close>

fun visibleColumns_init :: "stored \<Rightarrow> json" where
  "visibleColumns_init NoItem = JArray (map JString DEFAULT_VISIBLE)"
| "visibleColumns_init Unparsable = JArray (map JString DEFAULT_VISIBLE)"
| "visibleColumns_init (Parsed (JArray xs)) =
     (if length xs = 0 \<or> JString ''name'' \<notin> set xs then JArray (map JString DEFAULT_VISIBLE)
      else JArray xs)"
| "visibleColumns_init (Parsed (JString s)) =
     (if length s = 0 \<or> \<not> includes_str s ''name'' then JArray (map JString DEFAULT_VISIBLE)
      else JString s)"
| "visibleColumns_init (Parsed v) = JArray (map JString DEFAULT_VISIBLE)"

text \<open>\<open>v.includes('name')\<close> on the value the state holds.\<close>

fun includes_name :: "json \<Rightarrow> bool" where
  "includes_name (JArray xs) = (JString ''name'' \<in> set xs)"
| "includes_name (JString s) = includes_str s ''name''"
| "includes_name v = False"

section \<open>PDF export tiling (handleExportPDF)\<close>










section \<open>Grouping and filtering pipeline (groupedData, flattenedData)\<close>

text \<open>The client's \<open>Category\<close>, with \<open>id\<close> and \<open>name\<close> as \<open>cat_id\<close> and \<open>cat_name\<close>.\<close>

record category =
  cat_id :: int
  cat_name :: string
  sort_order :: int

text \<open>
  \<open>String.prototype.toLowerCase\<close> is a builtin of the language: it is the parameter \<open>lc\<close>
  of the filter. \<open>ascii_lower\<close> is what it does on text without letters beyond A to Z.
\<close>

definition ascii_lower :: "string \<Rightarrow> string" where
  "ascii_lower s =
     map (\<lambda>c. if 65 \<le> (of_char c :: nat) \<and> (of_char c :: nat) \<le> 90
               then char_of ((of_char c :: nat) + 32) else c) s"

text \<open>The label of the bucket for products without a category name, in UTF-8.\<close>

definition uncategorized :: string where
  "uncategorized = map char_of
     [216, 186, 217, 138, 216, 177, 32, 217, 133, 216, 181, 217, 134, 217, 129 :: nat]"

text \<open>\<open>p.category_name || uncategorized\<close>: the empty name is falsy.\<close>

definition cat_key :: "product \<Rightarrow> string" where
  "cat_key p = (if category_name p = [] then uncategorized else category_name p)"

text \<open>
  The sort of the product list. \<open>localeCompare\<close> is the collation of the runtime; it is
  taken as the order of the collation keys \<open>ck\<close>. \<open>Array.prototype.sort\<close> is stable, as
  is \<open>sort_key\<close>. On an integer, \<open>category_sort_order || 0\<close> is the integer itself.
\<close>

definition sorted_products :: "(string \<Rightarrow> 'k::linorder) \<Rightarrow> product list \<Rightarrow> product list" where
  "sorted_products ck products = sort_key (\<lambda>p. (category_sort_order p, ck (name p))) products"

definition passes_filter ::
  "(string \<Rightarrow> string) \<Rightarrow> string \<Rightarrow> string \<Rightarrow> bool \<Rightarrow> product \<Rightarrow> bool" where
  "passes_filter lc searchQuery selectedCategory showHidden p =
     (let nameMatch = includes_str (lc (name p)) (lc searchQuery);
          catMatch = includes_str (lc (category_name p)) (lc searchQuery);
          categoryFilterMatch = (selectedCategory = ''all'' \<or> category_name p = selectedCategory);
          visibilityMatch = (showHidden \<or> is_hidden p = 0)
      in (nameMatch \<or> catMatch) \<and> categoryFilterMatch \<and> visibilityMatch)"

definition filtered_products ::
  "(string \<Rightarrow> string) \<Rightarrow> (string \<Rightarrow> 'k::linorder) \<Rightarrow> product list \<Rightarrow> string \<Rightarrow> string \<Rightarrow> bool
     \<Rightarrow> product list" where
  "filtered_products lc ck products searchQuery selectedCategory showHidden =
     filter (passes_filter lc searchQuery selectedCategory showHidden) (sorted_products ck products)"

text \<open>
  The object \<open>groups\<close> starts as \<open>{}\<close>. Its own properties are the arrays stored under
  category names; besides them it answers for the property names of
  \<open>Object.prototype\<close>, under which it finds an inherited function (or, under
  \<open>__proto__\<close>, the prototype itself), which is truthy and has no \<open>push\<close>.
\<close>

definition Object_prototype_keys :: "string list" where
  "Object_prototype_keys =
     [''constructor'', ''__defineGetter__'', ''__defineSetter__'', ''hasOwnProperty'',
      ''__lookupGetter__'', ''__lookupSetter__'', ''isPrototypeOf'', ''propertyIsEnumerable'',
      ''toString'', ''valueOf'', ''__proto__'', ''toLocaleString'']"

datatype slot = Own "product list" | Inherited

definition get_prop :: "(string \<rightharpoonup> product list) \<Rightarrow> string \<Rightarrow> slot option" where
  "get_prop groups k =
     (case groups k of
        Some ps \<Rightarrow> Some (Own ps)
      | None \<Rightarrow> if k \<in> set Object_prototype_keys then Some Inherited else None)"

datatype error = TypeError

text \<open>
  One turn of the \<open>forEach\<close>: \<open>if (!groups[cat]) groups[cat] = []\<close> and then
  \<open>groups[cat].push(p)\<close>, which throws on an inherited member.
\<close>

definition push_group ::
  "product \<Rightarrow> (string \<rightharpoonup> product list) \<Rightarrow> error + (string \<rightharpoonup> product list)" where
  "push_group p groups =
     (let cat = cat_key p
      in case get_prop groups cat of
           None \<Rightarrow> Inr (groups(cat \<mapsto> [p]))
         | Some (Own ps) \<Rightarrow> Inr (groups(cat \<mapsto> ps @ [p]))
         | Some Inherited \<Rightarrow> Inl TypeError)"

fun push_all ::
  "product list \<Rightarrow> (string \<rightharpoonup> product list) \<Rightarrow> error + (string \<rightharpoonup> product list)" where
  "push_all [] groups = Inr groups"
| "push_all (p # ps) groups =
     (case push_group p groups of Inl e \<Rightarrow> Inl e | Inr groups' \<Rightarrow> push_all ps groups')"

definition build_groups :: "product list \<Rightarrow> error + (string \<rightharpoonup> product list)" where
  "build_groups filtered = push_all filtered Map.empty"

definition orderedCategories :: "category list \<Rightarrow> (string \<rightharpoonup> product list) \<Rightarrow> string list" where
  "orderedCategories categories groups =
     (let oc = filter (\<lambda>n. get_prop groups n \<noteq> None)
                 (map cat_name (sort_key sort_order categories))
      in if get_prop groups uncategorized \<noteq> None \<and> uncategorized \<notin> set oc
         then oc @ [uncategorized] else oc)"

text \<open>
  An element of \<open>groupedData.products\<close>: a product, or the inherited member that
  \<open>flatMap\<close> found under a category name and kept as one element.
\<close>

datatype item = Item product | Member string

text \<open>
  What \<open>flatMap\<close> adds for one name of \<open>orderedCategories\<close>. Each of these names has a
  property, so the last case does not arise.
\<close>

definition items_of :: "(string \<rightharpoonup> product list) \<Rightarrow> string \<Rightarrow> item list" where
  "items_of groups cat =
     (case get_prop groups cat of
        Some (Own ps) \<Rightarrow> map Item ps
      | Some Inherited \<Rightarrow> [Member cat]
      | None \<Rightarrow> [])"

text \<open>The result, without its field \<open>counts\<close>, which nothing reads.\<close>

record grouped =
  categories :: "string list"
  products :: "item list"

definition groupedData ::
  "(string \<Rightarrow> string) \<Rightarrow> (string \<Rightarrow> 'k::linorder) \<Rightarrow> product list \<Rightarrow> category list
     \<Rightarrow> string \<Rightarrow> string \<Rightarrow> bool \<Rightarrow> error + grouped" where
  "groupedData lc ck prods cats searchQuery selectedCategory showHidden =
     (case build_groups (filtered_products lc ck prods searchQuery selectedCategory showHidden) of
        Inl e \<Rightarrow> Inl e
      | Inr groups \<Rightarrow>
          (let oc = orderedCategories cats groups
           in Inr \<lparr>categories = oc, products = concat (map (items_of groups) oc)\<rparr>))"

datatype view_row = CategoryRow string | ProductRow item

text \<open>
  \<open>product.category_name || uncategorized\<close> on an element: an inherited member has no
  \<open>category_name\<close>.
\<close>

fun item_key :: "item \<Rightarrow> string" where
  "item_key (Item p) = cat_key p"
| "item_key (Member k) = uncategorized"

text \<open>The loop of \<open>flattenedData\<close> over the table rows, \<open>lastCategory\<close> being threaded.\<close>

fun flatten_rows :: "string \<Rightarrow> item list \<Rightarrow> view_row list" where
  "flatten_rows lastCategory [] = []"
| "flatten_rows lastCategory (x # xs) =
     (if item_key x \<noteq> lastCategory
      then CategoryRow (item_key x) # ProductRow x # flatten_rows (item_key x) xs
      else ProductRow x # flatten_rows lastCategory xs)"

text \<open>
  The table has one row per element of \<open>groupedData.products\<close>, in that order. When
  \<open>groupedData\<close> throws, so does the rendering of the component.
\<close>

definition flattenedData ::
  "(string \<Rightarrow> string) \<Rightarrow> (string \<Rightarrow> 'k::linorder) \<Rightarrow> product list \<Rightarrow> category list
     \<Rightarrow> string \<Rightarrow> string \<Rightarrow> bool \<Rightarrow> error + view_row list" where
  "flattenedData lc ck prods cats searchQuery selectedCategory showHidden =
     (case groupedData lc ck prods cats searchQuery selectedCategory showHidden of
        Inl e \<Rightarrow> Inl e
      | Inr g \<Rightarrow> Inr (flatten_rows [] (products g)))"

text \<open>The rows on the screen: none when the rendering has thrown.\<close>

fun rows_of :: "error + view_row list \<Rightarrow> view_row list" where
  "rows_of (Inl e) = []"
| "rows_of (Inr rows) = rows"

definition header_rows :: "view_row list \<Rightarrow> string list" where
  "header_rows rows = concat (map (\<lambda>r. case r of CategoryRow n \<Rightarrow> [n] | ProductRow x \<Rightarrow> []) rows)"

definition product_rows :: "view_row list \<Rightarrow> item list" where
  "product_rows rows = concat (map (\<lambda>r. case r of CategoryRow n \<Rightarrow> [] | ProductRow x \<Rightarrow> [x]) rows)"

section \<open>Export table body\<close>

definition export_group :: "(string \<Rightarrow> 'k::linorder) \<Rightarrow> product list \<Rightarrow> bool \<Rightarrow> category \<Rightarrow> view_row list" where
  "export_group ck prods showHidden cat =
     (let catProducts =
            filter (\<lambda>p. category_id p = cat_id cat \<and> (showHidden \<or> is_hidden p = 0)) prods
      in if length catProducts = 0 then []
         else CategoryRow (cat_name cat)
              # map (\<lambda>p. ProductRow (Item p)) (sort_key (\<lambda>p. ck (name p)) catProducts))"

definition export_rows ::
  "(string \<Rightarrow> 'k::linorder) \<Rightarrow> product list \<Rightarrow> category list \<Rightarrow> bool \<Rightarrow> view_row list" where
  "export_rows ck prods cats showHidden =
     concat (map (export_group ck prods showHidden) (sort_key sort_order cats))"

section \<open>Server: PUT /api/products/:id\<close>

text \<open>
  A row of the table \<open>products\<close>; \<open>None\<close> is SQL \<open>NULL\<close>. A field of the request body is
  missing (\<open>undefined\<close> after destructuring), \<open>null\<close>, or given; the first two are bound
  as \<open>NULL\<close>.
\<close>

record prod_row =
  row_id :: int
  row_category_id :: "int option"
  row_name :: string
  row_cost_usd :: "real option"
  row_profit_syp :: "real option"
  row_wholesale_profit_syp :: "real option"
  row_carton_usd :: "real option"
  row_wholesale_carton_usd :: "real option"
  row_is_hidden :: "int option"

datatype 'a field = Missing | JsonNull | Given 'a

record update_body =
  u_name :: "string field"
  u_cost_usd :: "real field"
  u_profit_syp :: "real field"
  u_wholesale_profit_syp :: "real field"
  u_carton_usd :: "real field"
  u_wholesale_carton_usd :: "real field"
  u_category_id :: "int field"
  u_is_hidden :: "int field"

fun bind :: "'a field \<Rightarrow> 'a option" where
  "bind (Given v) = Some v"
| "bind f = None"

fun COALESCE :: "'a option \<Rightarrow> 'a option \<Rightarrow> 'a option" where
  "COALESCE (Some v) y = Some v"
| "COALESCE None y = y"

definition effectiveCartonUsd :: "update_body \<Rightarrow> real field" where
  "effectiveCartonUsd b = (if u_cost_usd b \<noteq> Missing then u_cost_usd b else u_carton_usd b)"

text \<open>The \<open>SET\<close> clause on one row; \<open>name\<close> is \<open>NOT NULL\<close>, so its \<open>COALESCE\<close> has a value.\<close>

definition update_row :: "update_body \<Rightarrow> prod_row \<Rightarrow> prod_row" where
  "update_row b r =
     r\<lparr>row_name := (case bind (u_name b) of Some n \<Rightarrow> n | None \<Rightarrow> row_name r),
       row_cost_usd := COALESCE (bind (u_cost_usd b)) (row_cost_usd r),
       row_profit_syp := COALESCE (bind (u_profit_syp b)) (row_profit_syp r),
       row_wholesale_profit_syp :=
         COALESCE (bind (u_wholesale_profit_syp b)) (row_wholesale_profit_syp r),
       row_carton_usd := COALESCE (bind (effectiveCartonUsd b)) (bind (u_carton_usd b)),
       row_wholesale_carton_usd :=
         COALESCE (bind (u_wholesale_carton_usd b)) (row_wholesale_carton_usd r),
       row_category_id := COALESCE (bind (u_category_id b)) (row_category_id r),
       row_is_hidden := COALESCE (bind (u_is_hidden b)) (row_is_hidden r)\<rparr>"

definition put_product :: "int \<Rightarrow> update_body \<Rightarrow> prod_row list \<Rightarrow> prod_row list" where
  "put_product i b table = map (\<lambda>r. if row_id r = i then update_row b r else r) table"

text \<open>The body the context menu sends to hide a product, and a row of the seed data.\<close>

definition hide_request :: update_body where
  "hide_request =
     \<lparr>u_name = Missing, u_cost_usd = Missing, u_profit_syp = Missing,
      u_wholesale_profit_syp = Missing, u_carton_usd = Missing,
      u_wholesale_carton_usd = Missing, u_category_id = Missing, u_is_hidden = Given 1\<rparr>"

definition seed_row :: prod_row where
  "seed_row =
     \<lparr>row_id = 1, row_category_id = Some 1, row_name = ''Marlboro'',
      row_cost_usd = Some 22.56, row_profit_syp = Some 500,
      row_wholesale_profit_syp = Some 250, row_carton_usd = Some 22.56,
      row_wholesale_carton_usd = Some 22.30, row_is_hidden = Some 0\<rparr>"

section \<open>Shapes and sample data for the statements\<close>

text \<open>The rows of one group: nothing when it is empty, else its header and its products.\<close>

definition group_rows :: "(string \<Rightarrow> product list) \<Rightarrow> string \<Rightarrow> view_row list" where
  "group_rows g n =
     (if g n = [] then [] else CategoryRow n # map (\<lambda>p. ProductRow (Item p)) (g n))"

text \<open>The object \<open>groups\<close> after the \<open>forEach\<close> over a list when no turn throws.\<close>

definition groups_of :: "product list \<Rightarrow> (string \<rightharpoonup> product list)" where
  "groups_of fs c =
     (if filter (\<lambda>p. cat_key p = c) fs = [] then None
      else Some (filter (\<lambda>p. cat_key p = c) fs))"

text \<open>
  The product list is the join that \<open>GET /api/products\<close> computes over the category list:
  category ids and names are keys, no name is empty or a property name of
  \<open>Object.prototype\<close>, and every product carries the id, the name and the sort position
  of one listed category.
\<close>

definition joined :: "product list \<Rightarrow> category list \<Rightarrow> bool" where
  "joined prods cats =
     (distinct (map cat_name cats) \<and> distinct (map cat_id cats)
      \<and> (\<forall>c\<in>set cats. cat_name c \<noteq> [] \<and> cat_name c \<notin> set Object_prototype_keys)
      \<and> (\<forall>p\<in>set prods. \<exists>c\<in>set cats. category_id p = cat_id c
             \<and> category_name p = cat_name c \<and> category_sort_order p = sort_order c))"

text \<open>A collation: strings compared code unit by code unit.\<close>

definition code_units :: "string \<Rightarrow> nat list" where
  "code_units s = map of_char s"

definition sample_product :: "int \<Rightarrow> int \<Rightarrow> string \<Rightarrow> int \<Rightarrow> string \<Rightarrow> int \<Rightarrow> product" where
  "sample_product i c cn so n h =
     \<lparr>prod_id = i, category_id = c, category_name = cn, category_sort_order = so, name = n,
      cost_usd = Num (Fin 0), profit_syp = Num (Fin 500), wholesale_profit_syp = Num (Fin 250),
      carton_usd = Num (Fin 0), wholesale_carton_usd = Num (Fin 0), is_hidden = h\<rparr>"

definition sample_categories :: "category list" where
  "sample_categories =
     [\<lparr>cat_id = 2, cat_name = ''B'', sort_order = 1\<rparr>,
      \<lparr>cat_id = 1, cat_name = ''A'', sort_order = 0\<rparr>]"

definition sample_products :: "product list" where
  "sample_products =
     [sample_product 1 2 ''B'' 1 ''zz'' 0, sample_product 2 1 ''A'' 0 ''bb'' 0,
      sample_product 3 1 ''A'' 0 ''a'' 1, sample_product 4 1 ''A'' 0 ''c'' 0]"

section \<open>Properties of the rounding\<close>


lemma rne_of_int [simp]: "rne (of_int n) = n"
  by (simp add: rne_def)

lemma rne_zero [simp]: "rne 0 = 0"
  using rne_of_int[of 0] by simp

lemma rne_ge: "of_int m \<le> y \<Longrightarrow> m \<le> rne y"
proof -
  assume "of_int m \<le> y"
  then have "m \<le> \<lfloor>y\<rfloor>" by (simp add: le_floor_iff)
  then show ?thesis by (auto simp: rne_def Let_def)
qed

lemma rne_le: "y \<le> of_int m \<Longrightarrow> rne y \<le> m"
proof -
  assume a: "y \<le> of_int m"
  show ?thesis
  proof (cases "y = of_int m")
    case True
    then show ?thesis by simp
  next
    case False
    with a have "y < of_int m" by simp
    then have "\<lfloor>y\<rfloor> < m" by (simp add: floor_less_iff)
    then show ?thesis by (auto simp: rne_def Let_def)
  qed
qed

lemma expo_ge: "- 1022 \<le> expo x"
  by (simp add: expo_def)

lemma ulp_pos: "0 < ulp x"
  by (simp add: ulp_def)

lemma pow2_split: "(2::real) powi (e + 1100) = 2 powi e * 2 ^ 1100"
  by (simp add: power_int_add)

lemma expo_upper: "\<bar>x\<bar> < 2 powi (expo x + 1)"
proof -
  define n where "n = \<lfloor>\<bar>x\<bar> * 2 ^ 1100\<rfloor>"
  have n0: "0 \<le> n" by (simp add: n_def)
  have "bitlen n \<le> expo x + 1101" by (simp add: expo_def n_def)
  then have "n < 2 ^ nat (expo x + 1101)" by (simp add: bitlen_le_iff_power)
  then have "n + 1 \<le> 2 ^ nat (expo x + 1101)" by simp
  then have "real_of_int (n + 1) \<le> real_of_int (2 ^ nat (expo x + 1101))"
    by (simp only: of_int_le_iff)
  moreover have "\<bar>x\<bar> * 2 ^ 1100 < real_of_int (n + 1)"
    unfolding n_def by linarith
  ultimately have "\<bar>x\<bar> * 2 ^ 1100 < 2 ^ nat (expo x + 1101)" by simp
  also have "(2::real) ^ nat (expo x + 1101) = 2 powi (expo x + 1101)"
    using expo_ge[of x] by (simp add: power_int_nonneg_exp)
  also have "\<dots> = 2 powi (expo x + 1) * 2 ^ 1100"
    using pow2_split[of "expo x + 1"] by (simp add: algebra_simps)
  finally show ?thesis by simp
qed

lemma expo_lower:
  assumes "2 powi (- 1022) \<le> \<bar>x\<bar>"
  shows "2 powi (expo x) \<le> \<bar>x\<bar>"
proof -
  define n where "n = \<lfloor>\<bar>x\<bar> * 2 ^ 1100\<rfloor>"
  have "(2::real) powi (- 1022) * 2 ^ 1100 = 2 ^ 78"
    by (simp add: power_int_minus field_simps)
  then have "(2::real) ^ 78 \<le> \<bar>x\<bar> * 2 ^ 1100"
    using assms by (metis mult_right_mono zero_le_numeral zero_le_power)
  then have "real_of_int (2 ^ 78) \<le> \<bar>x\<bar> * 2 ^ 1100" by simp
  then have n78: "2 ^ 78 \<le> n" unfolding n_def by (simp only: le_floor_iff)
  then have npos: "0 < n" by (smt (verit) zero_less_power)
  have "(79::int) \<le> bitlen n" using n78 by (simp add: bitlen_ge_iff_power)
  then have e: "expo x = bitlen n - 1101" by (simp add: expo_def n_def)
  have "2 ^ nat (bitlen n - 1) \<le> n" using bitlen_bounds[OF npos] by simp
  then have "real_of_int (2 ^ nat (bitlen n - 1)) \<le> real_of_int n"
    by (simp only: of_int_le_iff)
  also have "real_of_int n \<le> \<bar>x\<bar> * 2 ^ 1100" unfolding n_def by linarith
  finally have "(2::real) ^ nat (bitlen n - 1) \<le> \<bar>x\<bar> * 2 ^ 1100" by simp
  moreover have "(2::real) ^ nat (bitlen n - 1) = 2 powi (expo x + 1100)"
    using \<open>79 \<le> bitlen n\<close> by (simp add: e power_int_nonneg_exp)
  ultimately have "(2::real) powi (expo x) * 2 ^ 1100 \<le> \<bar>x\<bar> * 2 ^ 1100"
    by (simp add: pow2_split)
  then show ?thesis by simp
qed

lemma pow2_less_cancel: "(2::real) powi a < 2 powi b \<Longrightarrow> a < b"
  by (metis linorder_not_less one_le_numeral power_int_increasing)

lemma expo_eq:
  assumes "2 powi e \<le> \<bar>x\<bar>" "\<bar>x\<bar> < 2 powi (e + 1)" "- 1022 \<le> e"
  shows "expo x = e"
proof -
  have "(2::real) powi (- 1022) \<le> 2 powi e" using assms(3) by (intro power_int_increasing) simp_all
  then have low: "2 powi (expo x) \<le> \<bar>x\<bar>" using assms(1) by (intro expo_lower) linarith
  have "(2::real) powi e < 2 powi (expo x + 1)" using assms(1) expo_upper[of x] by linarith
  then have "e < expo x + 1" by (rule pow2_less_cancel)
  moreover have "(2::real) powi (expo x) < 2 powi (e + 1)" using low assms(2) by linarith
  then have "expo x < e + 1" by (rule pow2_less_cancel)
  ultimately show ?thesis by linarith
qed

lemma expo_small:
  assumes "\<bar>x\<bar> < 2 powi (- 1022)"
  shows "expo x = - 1022"
proof -
  define n where "n = \<lfloor>\<bar>x\<bar> * 2 ^ 1100\<rfloor>"
  have "(2::real) powi (- 1022) * 2 ^ 1100 = 2 ^ 78"
    by (simp add: power_int_minus field_simps)
  moreover have "\<bar>x\<bar> * 2 ^ 1100 < 2 powi (- 1022) * 2 ^ 1100"
    using assms by (intro mult_strict_right_mono) simp_all
  ultimately have "\<bar>x\<bar> * 2 ^ 1100 < real_of_int (2 ^ 78)" by simp
  then have "n < 2 ^ 78" unfolding n_def by (simp only: floor_less_iff)
  then have "n < 2 ^ nat 78" by simp
  then have "bitlen n \<le> 78" by (simp only: bitlen_le_iff_power) simp
  then show ?thesis by (simp add: expo_def n_def)
qed

lemma expo_le:
  assumes "\<bar>x\<bar> < 2 powi (j + 1)" "- 1022 \<le> j"
  shows "expo x \<le> j"
proof (cases "2 powi (- 1022) \<le> \<bar>x\<bar>")
  case True
  then have "2 powi (expo x) \<le> \<bar>x\<bar>" by (rule expo_lower)
  then have "(2::real) powi (expo x) < 2 powi (j + 1)" using assms(1) by linarith
  then have "expo x < j + 1" by (rule pow2_less_cancel)
  then show ?thesis by simp
next
  case False
  then have "expo x = - 1022" by (intro expo_small) simp
  then show ?thesis using assms(2) by simp
qed




lemma dbl_nonneg: "0 \<le> x \<Longrightarrow> 0 \<le> dbl x"
proof -
  assume "0 \<le> x"
  then have "of_int 0 \<le> x / ulp x" using ulp_pos[of x] by simp
  then have "0 \<le> rne (x / ulp x)" by (rule rne_ge)
  then show ?thesis using ulp_pos[of x] by (simp add: dbl_def)
qed

lemma dbl_nonpos: "x \<le> 0 \<Longrightarrow> dbl x \<le> 0"
proof -
  assume "x \<le> 0"
  then have "x / ulp x \<le> of_int 0" using ulp_pos[of x] by (simp add: divide_le_0_iff)
  then have "rne (x / ulp x) \<le> 0" by (rule rne_le)
  then show ?thesis using ulp_pos[of x] by (simp add: dbl_def mult_le_0_iff)
qed

lemma dbl_zero [simp]: "dbl 0 = 0"
  by (simp add: dbl_def)

text \<open>A value \<open>m * 2^k\<close> with \<open>|m| < 2^53\<close> and \<open>k \<ge> -1074\<close> is a double.\<close>

lemma dbl_exact:
  assumes m: "\<bar>m\<bar> < 2 ^ 53" and k: "- 1074 \<le> k"
  shows "dbl (of_int m * 2 powi k) = of_int m * 2 powi k"
proof -
  let ?x = "real_of_int m * 2 powi k"
  have "\<bar>real_of_int m\<bar> < 2 ^ 53" using m by (metis of_int_abs of_int_less_numeral_power_cancel_iff)
  then have "\<bar>?x\<bar> < 2 ^ 53 * 2 powi k"
    by (simp add: abs_mult)
  also have "(2::real) ^ 53 * 2 powi k = 2 powi (k + 52 + 1)"
    by (simp add: power_int_add)
  finally have "expo ?x \<le> k + 52" using k by (intro expo_le) simp_all
  then obtain d where d: "k = expo ?x - 52 + int d"
    by (metis add.commute diff_le_eq nonneg_int_cases diff_add_cancel diff_ge_0_iff_ge)
  define u where "u = ulp ?x"
  have u: "0 < u" by (simp add: u_def ulp_pos)
  have p: "2 powi k = u * 2 ^ d"
    unfolding u_def ulp_def by (subst d) (simp add: power_int_add)
  have "?x / u = of_int (m * 2 ^ d)"
    using u by (simp add: p)
  then have "rne (?x / u) = m * 2 ^ d" by (simp only: rne_of_int)
  then have "dbl ?x = of_int (m * 2 ^ d) * u" by (simp add: dbl_def u_def)
  also have "\<dots> = real_of_int m * (u * 2 ^ d)" by simp
  finally show ?thesis by (simp only: p)
qed

lemma dbl_int: "\<bar>m\<bar> < 2 ^ 53 \<Longrightarrow> dbl (of_int m) = of_int m"
  using dbl_exact[of m 0] by simp

text \<open>Rounding does not cross a power of two.\<close>

lemma dbl_le_pow2:
  assumes "x \<le> 2 powi j" "- 1074 \<le> j"
  shows "dbl x \<le> 2 powi j"
proof (cases "x \<le> 0")
  case True
  then have "dbl x \<le> 0" by (rule dbl_nonpos)
  then show ?thesis by (smt (verit) zero_less_power_int)
next
  case False
  then have "\<bar>x\<bar> < 2 powi (j + 1)"
    using assms(1) by (smt (verit) power_int_strict_increasing[of j "j + 1" "2::real"])
  have "expo x \<le> j + 52"
  proof (cases "- 1022 \<le> j")
    case True
    then have "expo x \<le> j" using \<open>\<bar>x\<bar> < 2 powi (j + 1)\<close> by (intro expo_le)
    then show ?thesis by simp
  next
    case F: False
    have "(2::real) powi j \<le> 2 powi (- 1023)" using F by (intro power_int_increasing) simp_all
    moreover have "(2::real) powi (- 1023) < 2 powi (- 1022)"
      by (intro power_int_strict_increasing) simp_all
    ultimately have "\<bar>x\<bar> < 2 powi (- 1022)" using assms(1) False by simp
    then have "expo x = - 1022" by (rule expo_small)
    then show ?thesis using assms(2) by simp
  qed
  then obtain d where d: "j = expo x - 52 + int d"
    by (metis add.commute diff_le_eq nonneg_int_cases diff_add_cancel diff_ge_0_iff_ge)
  have p: "2 powi j = ulp x * 2 ^ d"
    unfolding ulp_def by (subst d) (simp add: power_int_add)
  then have "x / ulp x \<le> of_int (2 ^ d)"
    using assms(1) ulp_pos[of x] by (simp add: pos_divide_le_eq mult.commute)
  then have "rne (x / ulp x) \<le> 2 ^ d" by (rule rne_le)
  then have "real_of_int (rne (x / ulp x)) \<le> real_of_int (2 ^ d)" by (simp only: of_int_le_iff)
  then have "real_of_int (rne (x / ulp x)) * ulp x \<le> real_of_int (2 ^ d) * ulp x"
    using ulp_pos[of x] by (intro mult_right_mono) simp_all
  then show ?thesis by (simp add: dbl_def p mult.commute)
qed


lemma dbl_eval:
  assumes "2 powi e \<le> \<bar>x\<bar>" "\<bar>x\<bar> < 2 powi (e + 1)" "- 1022 \<le> e"
  shows "dbl x = of_int (rne (x / 2 powi (e - 52))) * 2 powi (e - 52)"
  by (simp add: dbl_def ulp_def expo_eq[OF assms])

lemma dbl_numeral [simp]: "(numeral n :: int) < 2 ^ 53 \<Longrightarrow> dbl (numeral n) = numeral n"
  using dbl_int[of "numeral n"] by simp

lemma dbl_neg_numeral [simp]:
  "(numeral n :: int) < 2 ^ 53 \<Longrightarrow> dbl (- numeral n) = - numeral n"
  using dbl_int[of "- numeral n"] by simp

lemma dbl_one [simp]: "dbl 1 = 1"
  using dbl_int[of 1] by simp








section \<open>Properties of the price calculator\<close>

lemmas price_defs = calculateSYP_def base_of_def costUsd_of_def rate_of_def profit_of_def
  jsOr_def truthy_def mkNum_def isNaN_def dbl_overflow_def Let_def

lemma dbl_overflow_pos: "0 < dbl_overflow"
  by (simp add: dbl_overflow_def)

lemma mkNum_not_NaN [simp]: "mkNum x \<noteq> NaN"
  by (simp add: mkNum_def)

lemma mkNum_in_range: "0 \<le> y \<Longrightarrow> y < dbl_overflow \<Longrightarrow> mkNum y = Fin y"
  by (simp add: mkNum_def)

lemma nonneg_mkNum: "0 \<le> x \<Longrightarrow> nonneg (mkNum x)"
  using dbl_overflow_pos by (simp add: mkNum_def nonneg_def)

lemma nonneg_mkNum_dbl: "0 \<le> x \<Longrightarrow> nonneg (mkNum (dbl x))"
  by (intro nonneg_mkNum dbl_nonneg)

lemma nonneg_jsMul: "nonneg x \<Longrightarrow> nonneg y \<Longrightarrow> jsMul x y = NaN \<or> nonneg (jsMul x y)"
  by (cases x; cases y) (auto simp: nonneg_def intro: nonneg_mkNum_dbl[unfolded nonneg_def])

lemma nonneg_jsAdd: "nonneg x \<Longrightarrow> nonneg y \<Longrightarrow> nonneg (jsAdd x y)"
  by (cases x; cases y) (auto simp: nonneg_def intro: nonneg_mkNum_dbl[unfolded nonneg_def])

lemma round_div_nonneg: "nonneg x \<Longrightarrow> nonneg (Math_round (jsDiv x (Fin 500)))"
proof (cases x)
  case (Fin a)
  assume "nonneg x"
  then have "0 \<le> dbl (a / 500)" using Fin by (intro dbl_nonneg) (simp add: nonneg_def)
  then show ?thesis
    using Fin dbl_overflow_pos by (auto simp: nonneg_def mkNum_def)
qed (simp_all add: nonneg_def)

text \<open>The result by the kind of number that \<open>base\<close> is.\<close>

lemma calc_result_cases:
  "calculateSYP s2n r p =
     (case base_of s2n r p of
        NaN \<Rightarrow> Fin 0
      | PInf \<Rightarrow> PInf
      | NInf \<Rightarrow> NInf
      | Fin b \<Rightarrow> jsMul (Math_round (mkNum (dbl (b / 500)))) (Fin 500))"
  by (cases "base_of s2n r p")
     (auto simp: calculateSYP_def Let_def isNaN_def mkNum_def)

lemma calc_not_NaN: "calculateSYP s2n r p \<noteq> NaN"
  by (simp add: calculateSYP_def Let_def isNaN_def)

lemma calc_NaN_base: "base_of s2n r p = NaN \<Longrightarrow> calculateSYP s2n r p = Fin 0"
  by (simp add: calc_result_cases)

lemma base_NaN_of_product_NaN:
  "jsMul (costUsd_of s2n p) (rate_of s2n r) = NaN \<Longrightarrow> base_of s2n r p = NaN"
  by (simp add: base_of_def)

lemma calc_nonneg:
  assumes "nonneg (costUsd_of s2n p)" "nonneg (rate_of s2n r)" "nonneg (profit_of s2n p)"
  shows "nonneg (calculateSYP s2n r p)"
proof (cases "jsMul (costUsd_of s2n p) (rate_of s2n r) = NaN")
  case True
  then show ?thesis
    by (simp add: calc_NaN_base base_NaN_of_product_NaN nonneg_def)
next
  case False
  with nonneg_jsMul[OF assms(1,2)] have "nonneg (jsMul (costUsd_of s2n p) (rate_of s2n r))"
    by simp
  then have b: "nonneg (base_of s2n r p)"
    unfolding base_of_def using assms(3) by (rule nonneg_jsAdd)
  have "nonneg (Math_round (jsDiv (base_of s2n r p) (Fin 500)))"
    using b by (rule round_div_nonneg)
  then have "jsMul (Math_round (jsDiv (base_of s2n r p) (Fin 500))) (Fin 500) = NaN
      \<or> nonneg (jsMul (Math_round (jsDiv (base_of s2n r p) (Fin 500))) (Fin 500))"
    by (rule nonneg_jsMul) (simp add: nonneg_def)
  then show ?thesis
    by (auto simp: calculateSYP_def Let_def isNaN_def nonneg_def)
qed

lemma pow2_below_overflow: "n \<le> 1023 \<Longrightarrow> (2::real) ^ n < dbl_overflow"
proof -
  assume "n \<le> 1023"
  then have "(2::real) ^ n \<le> 2 ^ 1023" by (intro power_increasing) simp_all
  moreover have "(2::real) ^ 1023 < dbl_overflow" by (simp add: dbl_overflow_def)
  ultimately show ?thesis by linarith
qed

text \<open>A rounded value between 0 and a power of two below the overflow is finite.\<close>

lemma mkNum_dbl_bounded:
  assumes "0 \<le> x" "x \<le> 2 ^ n" "n \<le> 1023"
  shows "mkNum (dbl x) = Fin (dbl x) \<and> 0 \<le> dbl x \<and> dbl x \<le> 2 ^ n"
proof -
  have "x \<le> 2 powi (int n)" using assms(2) by simp
  then have "dbl x \<le> 2 powi (int n)" by (rule dbl_le_pow2) simp
  then have u: "dbl x \<le> 2 ^ n" by simp
  have l: "0 \<le> dbl x" using assms(1) by (rule dbl_nonneg)
  have "dbl x < dbl_overflow" using u pow2_below_overflow[OF assms(3)] by linarith
  with l have "mkNum (dbl x) = Fin (dbl x)" by (rule mkNum_in_range)
  then show ?thesis using l u by simp
qed

text \<open>With finite inputs that are not negative and a base up to \<open>2^1000\<close>, no step overflows.\<close>

lemma calc_finite:
  assumes c: "costUsd_of s2n p = Fin c" and x: "rate_of s2n r = Fin x"
    and q: "profit_of s2n p = Fin q"
    and nn: "0 \<le> c" "0 \<le> x" "0 \<le> q"
    and bound: "c * x + q \<le> 2 ^ 1000"
  shows "\<exists>v. calculateSYP s2n r p = Fin v \<and> 0 \<le> v"
proof -
  have cx: "0 \<le> c * x" using nn by simp
  have "c * x \<le> 2 ^ 1000" using nn bound by linarith
  with cx have m1: "mkNum (dbl (c * x)) = Fin (dbl (c * x))" "0 \<le> dbl (c * x)"
      "dbl (c * x) \<le> 2 ^ 1000"
    using mkNum_dbl_bounded[of "c * x" 1000] by simp_all
  have "q \<le> 2 ^ 1000" using cx bound by linarith
  then have "dbl (c * x) + q \<le> 2 ^ 1001" using m1(3) by simp
  moreover have "0 \<le> dbl (c * x) + q" using m1(2) nn by simp
  ultimately have m2: "mkNum (dbl (dbl (c * x) + q)) = Fin (dbl (dbl (c * x) + q))"
      "0 \<le> dbl (dbl (c * x) + q)" "dbl (dbl (c * x) + q) \<le> 2 ^ 1001"
    using mkNum_dbl_bounded[of "dbl (c * x) + q" 1001] by simp_all
  define b where "b = dbl (dbl (c * x) + q)"
  have base: "base_of s2n r p = Fin b"
    by (simp add: base_of_def c x q m1(1) m2(1) b_def)
  have b0: "0 \<le> b" "b \<le> 2 ^ 1001" using m2 by (simp_all add: b_def)
  then have "0 \<le> b / 500" "b / 500 \<le> 2 ^ 1001" by simp_all
  then have m3: "mkNum (dbl (b / 500)) = Fin (dbl (b / 500))" "0 \<le> dbl (b / 500)"
      "dbl (b / 500) \<le> 2 ^ 1001"
    using mkNum_dbl_bounded[of "b / 500" 1001] by simp_all
  define n where "n = \<lfloor>dbl (b / 500) + 1 / 2\<rfloor>"
  have n0: "0 \<le> n" using m3(2) by (simp add: n_def)
  have "real_of_int n \<le> dbl (b / 500) + 1 / 2" unfolding n_def by (rule of_int_floor_le)
  then have "real_of_int n \<le> 2 ^ 1001 + 1" using m3(3) by linarith
  then have "real_of_int n * 500 \<le> (2 ^ 1001 + 1) * 500" by simp
  also have "\<dots> \<le> (2::real) ^ 1011" by simp
  finally have "real_of_int n * 500 \<le> 2 ^ 1011" .
  moreover have "0 \<le> real_of_int n * 500" using n0 by simp
  ultimately have m4: "mkNum (dbl (real_of_int n * 500)) = Fin (dbl (real_of_int n * 500))"
      "0 \<le> dbl (real_of_int n * 500)"
    using mkNum_dbl_bounded[of "real_of_int n * 500" 1011] by simp_all
  have "calculateSYP s2n r p = Fin (dbl (real_of_int n * 500))"
    by (simp add: calc_result_cases base m3(1) n_def[symmetric] m4(1))
  then show ?thesis using m4(2) by blast
qed




text \<open>Roundings that the statements below meet.\<close>

lemma dbl_2256: "dbl (2256 / 100) = 6350075474592399 / 2 ^ 48"
  by (subst dbl_eval[where e = 4]) (simp_all add: rne_def Let_def)

lemma dbl_2256_rate: "dbl (6350075474592399 / 2 ^ 48 * 11700) = 263952"
  by (subst dbl_eval[where e = 18]) (simp_all add: rne_def Let_def)

lemma dbl_528904: "dbl (264452 / 500) = 4652288783817900 / 2 ^ 43"
  by (subst dbl_eval[where e = 9]) (simp_all add: rne_def Let_def)

lemma round_528904: "\<lfloor>(4652288783817900 / 2 ^ 43 :: real) + 1 / 2\<rfloor> = 529"
  by simp

lemma lit_2256: "lit 22.56 = Fin (6350075474592399 / 2 ^ 48)"
  unfolding lit_def using dbl_2256 by (simp add: mkNum_def dbl_overflow_def)

lemma price_of_base_264452:
  assumes "base_of s2n r p = Fin 264452"
  shows "calculateSYP s2n r p = Fin 264500"
proof -
  have "mkNum (dbl (264452 / 500)) = Fin (4652288783817900 / 2 ^ 43)"
    unfolding dbl_528904 by (simp add: mkNum_def dbl_overflow_def)
  then have "jsMul (Math_round (mkNum (dbl (264452 / 500)))) (Fin 500) = Fin 264500"
    by (simp add: round_528904 mkNum_def dbl_overflow_def)
  then show ?thesis by (simp only: calc_result_cases assms jsnum.case)
qed

lemma scenario2_exact:
  "costUsd_of s2n_unparsed (priced_product (Num (Fin 0)) (Num (Fin 22.56)) (Num (Fin 500)))
     = Fin 22.56"
  "base_of s2n_unparsed (Num (Fin 11700))
       (priced_product (Num (Fin 0)) (Num (Fin 22.56)) (Num (Fin 500))) = Fin 264452"
  "calculateSYP s2n_unparsed (Num (Fin 11700))
       (priced_product (Num (Fin 0)) (Num (Fin 22.56)) (Num (Fin 500))) = Fin 264500"
proof -
  let ?p = "priced_product (Num (Fin 0)) (Num (Fin 22.56)) (Num (Fin 500))"
  show "costUsd_of s2n_unparsed ?p = Fin 22.56"
    by (simp add: costUsd_of_def jsOr_def truthy_def priced_product_def)
  show b: "base_of s2n_unparsed (Num (Fin 11700)) ?p = Fin 264452"
    by (simp add: base_of_def costUsd_of_def rate_of_def profit_of_def jsOr_def truthy_def
        priced_product_def mkNum_def dbl_overflow_def)
  show "calculateSYP s2n_unparsed (Num (Fin 11700)) ?p = Fin 264500"
    using b by (rule price_of_base_264452)
qed

lemma scenario2_double:
  "costUsd_of s2n_unparsed (priced_product (Num (Fin 0)) (Num (lit 22.56)) (Num (Fin 500)))
     = lit 22.56"
  "base_of s2n_unparsed (Num (Fin 11700))
       (priced_product (Num (Fin 0)) (Num (lit 22.56)) (Num (Fin 500))) = Fin 264452"
  "calculateSYP s2n_unparsed (Num (Fin 11700))
       (priced_product (Num (Fin 0)) (Num (lit 22.56)) (Num (Fin 500))) = Fin 264500"
proof -
  let ?d = "priced_product (Num (Fin 0)) (Num (lit 22.56)) (Num (Fin 500))"
  show c: "costUsd_of s2n_unparsed ?d = lit 22.56"
    unfolding lit_2256 by (simp add: costUsd_of_def jsOr_def truthy_def priced_product_def)
  have "jsMul (lit 22.56) (Fin 11700) = Fin 263952"
    unfolding lit_2256 jsMul.simps dbl_2256_rate by (simp add: mkNum_def dbl_overflow_def)
  then show b: "base_of s2n_unparsed (Num (Fin 11700)) ?d = Fin 264452"
    unfolding base_of_def c
    by (simp add: rate_of_def profit_of_def jsOr_def truthy_def
        priced_product_def mkNum_def dbl_overflow_def)
  show "calculateSYP s2n_unparsed (Num (Fin 11700)) ?d = Fin 264500"
    using b by (rule price_of_base_264452)
qed

text \<open>
  C3, as the code has it. With \<open>cost_usd = 0\<close>, a legacy carton cost of 22.56, a profit of
  500 and a rate of 11700, the effective cost is 22.56, the base is
  263952 + 500 = 264452, and the final price is 264500. This holds for the decimal 22.56
  and for the double nearest to it, \<open>lit 22.56\<close>, which is what the code holds.
\<close>

theorem scenario2_price:
  "costUsd_of s2n_unparsed (priced_product (Num (Fin 0)) (Num (Fin 22.56)) (Num (Fin 500)))
     = Fin 22.56
   \<and> base_of s2n_unparsed (Num (Fin 11700))
       (priced_product (Num (Fin 0)) (Num (Fin 22.56)) (Num (Fin 500))) = Fin 264452
   \<and> calculateSYP s2n_unparsed (Num (Fin 11700))
       (priced_product (Num (Fin 0)) (Num (Fin 22.56)) (Num (Fin 500))) = Fin 264500
   \<and> costUsd_of s2n_unparsed (priced_product (Num (Fin 0)) (Num (lit 22.56)) (Num (Fin 500)))
     = lit 22.56
   \<and> base_of s2n_unparsed (Num (Fin 11700))
       (priced_product (Num (Fin 0)) (Num (lit 22.56)) (Num (Fin 500))) = Fin 264452
   \<and> calculateSYP s2n_unparsed (Num (Fin 11700))
       (priced_product (Num (Fin 0)) (Num (lit 22.56)) (Num (Fin 500))) = Fin 264500"
  by (intro conjI) (rule scenario2_exact scenario2_double)+

text \<open>C3, as the specification words it: the final price of that product is not 265000.\<close>

theorem scenario2_price_counterexample:
  "calculateSYP s2n_unparsed (Num (Fin 11700))
     (priced_product (Num (Fin 0)) (Num (Fin 22.56)) (Num (Fin 500))) \<noteq> Fin 265000
   \<and> calculateSYP s2n_unparsed (Num (Fin 11700))
     (priced_product (Num (Fin 0)) (Num (lit 22.56)) (Num (Fin 500))) \<noteq> Fin 265000"
  unfolding scenario2_exact(3) scenario2_double(3) by simp

text \<open>
  The rounding shows at the cost 4.10, the rate 12500 and the profit 500: the product is
  a little below 51250, the base a little below 51750, and the price is 51500, where
  exact arithmetic would give 52000.
\<close>

lemma dbl_410: "dbl (410 / 100) = 4616189618054758 / 2 ^ 50"
  by (subst dbl_eval[where e = 2]) (simp_all add: rne_def Let_def)

lemma dbl_410_rate: "dbl (4616189618054758 / 2 ^ 50 * 12500) = 7043746365439999 / 2 ^ 37"
  by (subst dbl_eval[where e = 15]) (simp_all add: rne_def Let_def)

lemma dbl_410_base: "dbl (7043746365439999 / 2 ^ 37 + 500) = 7112465842175999 / 2 ^ 37"
  by (subst dbl_eval[where e = 15]) (simp_all add: rne_def Let_def)

lemma dbl_410_quot: "dbl (7112465842175999 / 2 ^ 37 / 500) = 7283165022388223 / 2 ^ 46"
  by (subst dbl_eval[where e = 6]) (simp_all add: rne_def Let_def)

lemma price_410:
  "calculateSYP s2n_unparsed (Num (Fin 12500))
     (priced_product (Num (lit 4.10)) (Num (Fin 0)) (Num (Fin 500))) = Fin 51500"
proof -
  let ?p = "priced_product (Num (lit 4.10)) (Num (Fin 0)) (Num (Fin 500))"
  have l: "lit 4.10 = Fin (4616189618054758 / 2 ^ 50)"
    unfolding lit_def using dbl_410 by (simp add: mkNum_def dbl_overflow_def)
  have c: "costUsd_of s2n_unparsed ?p = Fin (4616189618054758 / 2 ^ 50)"
    unfolding l by (simp add: costUsd_of_def jsOr_def truthy_def priced_product_def)
  have m: "jsMul (Fin (4616189618054758 / 2 ^ 50)) (Fin 12500) = Fin (7043746365439999 / 2 ^ 37)"
    unfolding jsMul.simps dbl_410_rate by (simp add: mkNum_def dbl_overflow_def)
  have a: "jsAdd (Fin (7043746365439999 / 2 ^ 37)) (Fin 500) = Fin (7112465842175999 / 2 ^ 37)"
    unfolding jsAdd.simps dbl_410_base by (simp add: mkNum_def dbl_overflow_def)
  have r: "rate_of s2n_unparsed (Num (Fin 12500)) = Fin 12500"
    by (simp add: rate_of_def jsOr_def truthy_def)
  have q: "profit_of s2n_unparsed ?p = Fin 500"
    by (simp add: profit_of_def jsOr_def truthy_def priced_product_def)
  have b: "base_of s2n_unparsed (Num (Fin 12500)) ?p = Fin (7112465842175999 / 2 ^ 37)"
    unfolding base_of_def c r q m a ..
  have "mkNum (dbl (7112465842175999 / 2 ^ 37 / 500)) = Fin (7283165022388223 / 2 ^ 46)"
    unfolding dbl_410_quot by (simp add: mkNum_def dbl_overflow_def)
  then have "jsMul (Math_round (mkNum (dbl (7112465842175999 / 2 ^ 37 / 500)))) (Fin 500)
      = Fin 51500"
    by (simp add: mkNum_def dbl_overflow_def)
  then show ?thesis by (simp only: calc_result_cases b jsnum.case)
qed

text \<open>
  C4, as the code has it. The price is never \<open>NaN\<close>. When the product of cost and rate,
  or the base, is \<open>NaN\<close>, the price is 0. When cost, rate and profit, after their
  coercion, are not negative, neither is the price; when moreover they are finite and
  cost times rate plus profit is at most \<open>2^1000\<close>, the price is finite.
\<close>

theorem calculateSYP_never_NaN:
  "calculateSYP s2n r p \<noteq> NaN
   \<and> (jsMul (costUsd_of s2n p) (rate_of s2n r) = NaN \<or> base_of s2n r p = NaN
        \<longrightarrow> calculateSYP s2n r p = Fin 0)
   \<and> (nonneg (costUsd_of s2n p) \<and> nonneg (rate_of s2n r) \<and> nonneg (profit_of s2n p)
        \<longrightarrow> nonneg (calculateSYP s2n r p))
   \<and> (costUsd_of s2n p = Fin c \<and> rate_of s2n r = Fin x \<and> profit_of s2n p = Fin q
        \<and> 0 \<le> c \<and> 0 \<le> x \<and> 0 \<le> q \<and> c * x + q \<le> 2 ^ 1000
        \<longrightarrow> (\<exists>v. calculateSYP s2n r p = Fin v \<and> 0 \<le> v))"
proof (intro conjI impI)
  show "calculateSYP s2n r p \<noteq> NaN" by (rule calc_not_NaN)
next
  assume "jsMul (costUsd_of s2n p) (rate_of s2n r) = NaN \<or> base_of s2n r p = NaN"
  then have "base_of s2n r p = NaN" using base_NaN_of_product_NaN by blast
  then show "calculateSYP s2n r p = Fin 0" by (rule calc_NaN_base)
next
  assume "nonneg (costUsd_of s2n p) \<and> nonneg (rate_of s2n r) \<and> nonneg (profit_of s2n p)"
  then show "nonneg (calculateSYP s2n r p)" using calc_nonneg by blast
next
  assume "costUsd_of s2n p = Fin c \<and> rate_of s2n r = Fin x \<and> profit_of s2n p = Fin q
        \<and> 0 \<le> c \<and> 0 \<le> x \<and> 0 \<le> q \<and> c * x + q \<le> 2 ^ 1000"
  then show "\<exists>v. calculateSYP s2n r p = Fin v \<and> 0 \<le> v"
    using calc_finite by blast
qed

text \<open>
  The theorem at two inputs: an infinite cost at rate 0, where the product is \<open>NaN\<close>, and
  the cost 4 at rate 11700 with profit 500.
\<close>

theorem calculateSYP_never_NaN_witness:
  "jsMul (costUsd_of s2n_unparsed (priced_product (Num PInf) Null Null))
      (rate_of s2n_unparsed (Num (Fin 0))) = NaN
   \<and> calculateSYP s2n_unparsed (Num (Fin 0)) (priced_product (Num PInf) Null Null) = Fin 0
   \<and> costUsd_of s2n_unparsed (priced_product (Num (Fin 4)) Null (Num (Fin 500))) = Fin 4
   \<and> rate_of s2n_unparsed (Num (Fin 11700)) = Fin 11700
   \<and> profit_of s2n_unparsed (priced_product (Num (Fin 4)) Null (Num (Fin 500))) = Fin 500
   \<and> (4::real) * 11700 + 500 \<le> 2 ^ 1000
   \<and> nonneg (calculateSYP s2n_unparsed (Num (Fin 11700))
        (priced_product (Num (Fin 4)) Null (Num (Fin 500))))
   \<and> (\<exists>v. calculateSYP s2n_unparsed (Num (Fin 11700))
        (priced_product (Num (Fin 4)) Null (Num (Fin 500))) = Fin v \<and> 0 \<le> v)"
proof -
  let ?a = "priced_product (Num PInf) Null Null"
  let ?b = "priced_product (Num (Fin 4)) Null (Num (Fin 500))"
  have a: "jsMul (costUsd_of s2n_unparsed ?a) (rate_of s2n_unparsed (Num (Fin 0))) = NaN"
    by (simp add: costUsd_of_def rate_of_def jsOr_def truthy_def priced_product_def)
  have c: "costUsd_of s2n_unparsed ?b = Fin 4"
    by (simp add: costUsd_of_def jsOr_def truthy_def priced_product_def)
  have x: "rate_of s2n_unparsed (Num (Fin 11700)) = Fin 11700"
    by (simp add: rate_of_def jsOr_def truthy_def)
  have q: "profit_of s2n_unparsed ?b = Fin 500"
    by (simp add: profit_of_def jsOr_def truthy_def priced_product_def)
  have bd: "(4::real) * 11700 + 500 \<le> 2 ^ 1000"
    by simp
  have nn: "nonneg (costUsd_of s2n_unparsed ?b) \<and> nonneg (rate_of s2n_unparsed (Num (Fin 11700)))
      \<and> nonneg (profit_of s2n_unparsed ?b)"
    unfolding c x q by (simp add: nonneg_def)
  have fin: "costUsd_of s2n_unparsed ?b = Fin 4 \<and> rate_of s2n_unparsed (Num (Fin 11700)) = Fin 11700
      \<and> profit_of s2n_unparsed ?b = Fin 500 \<and> (0::real) \<le> 4 \<and> (0::real) \<le> 11700
      \<and> (0::real) \<le> 500 \<and> (4::real) * 11700 + 500 \<le> 2 ^ 1000"
    using c x q bd by (intro conjI) simp_all
  note t1 = calculateSYP_never_NaN [of s2n_unparsed "Num (Fin 0)" ?a]
  note t2 = calculateSYP_never_NaN [of s2n_unparsed "Num (Fin 11700)" ?b 4 11700 500]
  have r1: "calculateSYP s2n_unparsed (Num (Fin 0)) ?a = Fin 0"
    by (rule mp[OF t1[THEN conjunct2, THEN conjunct1] disjI1[OF a]])
  have r2: "nonneg (calculateSYP s2n_unparsed (Num (Fin 11700)) ?b)"
    by (rule mp[OF t2[THEN conjunct2, THEN conjunct2, THEN conjunct1] nn])
  have r3: "\<exists>v. calculateSYP s2n_unparsed (Num (Fin 11700)) ?b = Fin v \<and> 0 \<le> v"
    by (rule mp[OF t2[THEN conjunct2, THEN conjunct2, THEN conjunct2] fin])
  show ?thesis
    by (intro conjI) (rule a r1 c x q bd r2 r3)+
qed

text \<open>
  C4, as the specification words it, fails: an infinite rate gives an infinite base and
  an infinite price, not 0, and a profit of -1000 on a cost of 0 gives the price -1000.
\<close>

theorem calculateSYP_finite_nonneg_counterexample:
  "base_of s2n_unparsed (Num PInf) (priced_product (Num (Fin 1)) (Num (Fin 0)) (Num (Fin 0)))
     = PInf
   \<and> calculateSYP s2n_unparsed (Num PInf)
       (priced_product (Num (Fin 1)) (Num (Fin 0)) (Num (Fin 0))) = PInf
   \<and> calculateSYP s2n_unparsed (Num (Fin 11700))
       (priced_product (Num (Fin 0)) (Num (Fin 0)) (Num (Fin (- 1000)))) = Fin (- 1000)"
  by (simp add: price_defs priced_product_def)








section \<open>Properties of the server update\<close>

text \<open>
  C1 at the request the context menu sends to hide a product: every other column of the
  row keeps its value, and \<open>carton_usd\<close> becomes \<open>NULL\<close>, since its \<open>COALESCE\<close> falls
  back on the request's own \<open>carton_usd\<close> and not on the column.
\<close>

theorem hide_request_clears_carton_usd:
  "put_product 1 hide_request [seed_row]
     = [seed_row\<lparr>row_carton_usd := None, row_is_hidden := Some 1\<rparr>]"
  by (simp add: put_product_def update_row_def hide_request_def seed_row_def
      effectiveCartonUsd_def)

section \<open>Properties of the column registry\<close>

lemma init_includes_name: "includes_name (visibleColumns_init st)"
proof (cases st)
  case (Parsed v)
  then show ?thesis
    by (cases v) (simp_all add: DEFAULT_VISIBLE_def)
qed (simp_all add: DEFAULT_VISIBLE_def)

text \<open>
  C9. A stored list that is empty or lacks \<open>name\<close> is replaced by the default visible
  columns; whatever is stored, the first value of the state includes \<open>name\<close>, and so
  does the default.
\<close>

theorem visibleColumns_init_fallback:
  "(xs = [] \<or> JString ''name'' \<notin> set xs
      \<longrightarrow> visibleColumns_init (Parsed (JArray xs)) = JArray (map JString DEFAULT_VISIBLE))
   \<and> includes_name (visibleColumns_init st)
   \<and> ''name'' \<in> set DEFAULT_VISIBLE"
  by (simp add: init_includes_name) (simp add: DEFAULT_VISIBLE_def)

text \<open>The theorem at the empty list and at a list of two columns without \<open>name\<close>.\<close>

theorem visibleColumns_init_fallback_witness:
  "visibleColumns_init (Parsed (JArray [])) = JArray (map JString DEFAULT_VISIBLE)
   \<and> JString ''name'' \<notin> set [JString ''lsg'', JString ''cost_usd'']
   \<and> visibleColumns_init (Parsed (JArray [JString ''lsg'', JString ''cost_usd'']))
       = JArray (map JString DEFAULT_VISIBLE)
   \<and> includes_name (visibleColumns_init (Parsed (JArray [JString ''lsg'', JString ''cost_usd''])))"
proof -
  note t1 = visibleColumns_init_fallback [of "[]" NoItem]
  note t2 = visibleColumns_init_fallback
    [of "[JString ''lsg'', JString ''cost_usd'']" "Parsed (JArray [JString ''lsg'', JString ''cost_usd''])"]
  have n: "JString ''name'' \<notin> set [JString ''lsg'', JString ''cost_usd'']" by simp
  have a: "visibleColumns_init (Parsed (JArray [])) = JArray (map JString DEFAULT_VISIBLE)"
    by (rule mp[OF t1[THEN conjunct1] disjI1[OF refl]])
  have b: "visibleColumns_init (Parsed (JArray [JString ''lsg'', JString ''cost_usd'']))
       = JArray (map JString DEFAULT_VISIBLE)"
    by (rule mp[OF t2[THEN conjunct1] disjI2[OF n]])
  have c: "includes_name (visibleColumns_init (Parsed (JArray [JString ''lsg'', JString ''cost_usd''])))"
    by (rule t2[THEN conjunct2, THEN conjunct1])
  show ?thesis by (intro conjI) (rule a n b c)+
qed

section \<open>Properties of parseNumber\<close>













section \<open>Properties of the PDF tiling\<close>























section \<open>Properties of the pipeline and of the export table\<close>

lemma uncategorized_not_prototype: "uncategorized \<notin> set Object_prototype_keys"
  by (simp add: uncategorized_def Object_prototype_keys_def)

lemma get_prop_safe:
  "k \<notin> set Object_prototype_keys \<Longrightarrow> get_prop G k = map_option Own (G k)"
  by (simp add: get_prop_def split: option.splits)

lemma push_group_safe:
  assumes "cat_key p \<notin> set Object_prototype_keys"
  shows "push_group p g =
     Inr (g(cat_key p \<mapsto> (case g (cat_key p) of None \<Rightarrow> [] | Some ps \<Rightarrow> ps) @ [p]))"
  using assms by (simp add: push_group_def Let_def get_prop_safe split: option.splits)

lemma push_all_safe:
  assumes "\<forall>p\<in>set fs. cat_key p \<notin> set Object_prototype_keys"
  shows "push_all fs g =
     Inr (\<lambda>c. if filter (\<lambda>p. cat_key p = c) fs = [] then g c
              else Some ((case g c of None \<Rightarrow> [] | Some ps \<Rightarrow> ps)
                         @ filter (\<lambda>p. cat_key p = c) fs))"
  using assms
proof (induction fs arbitrary: g)
  case Nil
  then show ?case by simp
next
  case (Cons p fs)
  have pg: "push_group p g =
      Inr (g(cat_key p \<mapsto> (case g (cat_key p) of None \<Rightarrow> [] | Some ps \<Rightarrow> ps) @ [p]))"
    using Cons.prems by (intro push_group_safe) simp
  have ih: "push_all fs g' =
     Inr (\<lambda>c. if filter (\<lambda>p. cat_key p = c) fs = [] then g' c
              else Some ((case g' c of None \<Rightarrow> [] | Some ps \<Rightarrow> ps)
                         @ filter (\<lambda>p. cat_key p = c) fs))" for g'
    using Cons.prems by (intro Cons.IH) simp
  show ?case
    by (simp add: pg ih) (rule ext, simp split: option.splits)
qed

lemma build_groups_safe:
  assumes "\<forall>p\<in>set fs. cat_key p \<notin> set Object_prototype_keys"
  shows "build_groups fs = Inr (groups_of fs)"
  unfolding build_groups_def push_all_safe[OF assms] by (simp add: groups_of_def fun_eq_iff)

lemma groups_of_defined: "groups_of fs c \<noteq> None \<longleftrightarrow> c \<in> cat_key ` set fs"
  by (auto simp: groups_of_def filter_empty_conv)

text \<open>Whatever the names, a group that was built holds products of the filtered list only.\<close>

lemma push_all_sub:
  "push_all fs g = Inr G \<Longrightarrow> G c = Some ps
     \<Longrightarrow> set ps \<subseteq> set fs \<union> (case g c of None \<Rightarrow> {} | Some qs \<Rightarrow> set qs)"
proof (induction fs arbitrary: g)
  case Nil
  then show ?case by simp
next
  case (Cons p fs)
  obtain g' where g': "push_group p g = Inr g'" "push_all fs g' = Inr G"
    using Cons.prems(1) by (auto split: sum.splits)
  have "set ps \<subseteq> set fs \<union> (case g' c of None \<Rightarrow> {} | Some qs \<Rightarrow> set qs)"
    using g'(2) Cons.prems(2) by (rule Cons.IH)
  moreover have "(case g' c of None \<Rightarrow> {} | Some qs \<Rightarrow> set qs)
      \<subseteq> insert p (case g c of None \<Rightarrow> {} | Some qs \<Rightarrow> set qs)"
    using g'(1)
    by (auto simp: push_group_def Let_def get_prop_def split: option.splits slot.splits if_splits)
  ultimately show ?case by auto
qed

lemma build_groups_sub:
  "build_groups fs = Inr G \<Longrightarrow> G c = Some ps \<Longrightarrow> set ps \<subseteq> set fs"
  using push_all_sub[of fs Map.empty G c ps] by (simp add: build_groups_def)

lemma items_of_sub:
  assumes "build_groups fs = Inr G" "Item p \<in> set (items_of G c)"
  shows "p \<in> set fs"
proof -
  have "\<exists>ps. G c = Some ps \<and> p \<in> set ps"
  proof (cases "G c")
    case None
    then show ?thesis using assms(2) by (auto simp: items_of_def get_prop_def split: if_splits)
  next
    case (Some ps)
    then show ?thesis using assms(2) by (auto simp: items_of_def get_prop_def)
  qed
  then show ?thesis using build_groups_sub[OF assms(1)] by blast
qed

lemma set_filtered_products:
  "set (filtered_products lc ck ps q sel sh) = {p \<in> set ps. passes_filter lc q sel sh p}"
  by (auto simp: filtered_products_def sorted_products_def)

lemma mset_filtered_products:
  "mset (filtered_products lc ck ps q sel sh) = mset (filter (passes_filter lc q sel sh) ps)"
  by (simp add: filtered_products_def sorted_products_def)

lemma gd_items:
  assumes "groupedData lc ck ps cs q sel sh = Inr g" "Item p \<in> set (products g)"
  shows "p \<in> set ps \<and> passes_filter lc q sel sh p"
proof -
  let ?F = "filtered_products lc ck ps q sel sh"
  obtain G where G: "build_groups ?F = Inr G"
      "g = \<lparr>categories = orderedCategories cs G,
            products = concat (map (items_of G) (orderedCategories cs G))\<rparr>"
    using assms(1) by (auto simp: groupedData_def Let_def split: sum.splits)
  then obtain c where "Item p \<in> set (items_of G c)" using assms(2) by auto
  then have "p \<in> set ?F" using G(1) by (intro items_of_sub)
  then show ?thesis by (simp add: set_filtered_products)
qed

lemma product_rows_flatten: "product_rows (flatten_rows l xs) = xs"
  by (induction xs arbitrary: l) (simp_all add: product_rows_def)

lemma set_product_rows: "set (product_rows rows) = {x. ProductRow x \<in> set rows}"
  by (induction rows) (auto simp: product_rows_def split: view_row.splits)

lemma passes_filter_hidden: "passes_filter lc q sel False p \<Longrightarrow> is_hidden p = 0"
  by (simp add: passes_filter_def Let_def)

lemma export_rows_products:
  "ProductRow (Item p) \<in> set (export_rows ck ps cs sh)
     \<Longrightarrow> p \<in> set ps \<and> (sh \<or> is_hidden p = 0)"
  by (auto simp: export_rows_def export_group_def Let_def split: if_splits)

lemma flat_items:
  assumes "ProductRow (Item p) \<in> set (rows_of (flattenedData lc ck ps cs q sel sh))"
  shows "p \<in> set ps \<and> passes_filter lc q sel sh p"
proof -
  obtain g where g: "groupedData lc ck ps cs q sel sh = Inr g"
      "ProductRow (Item p) \<in> set (flatten_rows [] (products g))"
    using assms by (auto simp: flattenedData_def split: sum.splits)
  have "Item p \<in> set (product_rows (flatten_rows [] (products g)))"
    using g(2) by (simp only: set_product_rows) simp
  then have "Item p \<in> set (products g)" by (simp only: product_rows_flatten)
  then show ?thesis using g(1) by (intro gd_items)
qed

text \<open>
  C8. With show-hidden off, a product whose hidden flag is set is a row neither of the
  live view, whatever the search text and the selected category, nor of the export table.
\<close>

theorem hidden_product_excluded:
  assumes "is_hidden p \<noteq> 0"
  shows "ProductRow (Item p) \<notin> set (rows_of (flattenedData lc ck ps cs q sel False))
       \<and> ProductRow (Item p) \<notin> set (export_rows ck ps cs False)"
proof
  show "ProductRow (Item p) \<notin> set (rows_of (flattenedData lc ck ps cs q sel False))"
  proof
    assume "ProductRow (Item p) \<in> set (rows_of (flattenedData lc ck ps cs q sel False))"
    then have "passes_filter lc q sel False p" using flat_items by blast
    then show False using assms passes_filter_hidden by blast
  qed
next
  show "ProductRow (Item p) \<notin> set (export_rows ck ps cs False)"
    using assms export_rows_products by blast
qed


lemma cat_key_nonempty: "cat_key p \<noteq> []"
  by (simp add: cat_key_def uncategorized_def)

text \<open>One run of products of the same category, in front of the rest.\<close>

lemma flatten_rows_same:
  assumes "\<forall>p\<in>set xs. cat_key p = n"
  shows "flatten_rows n (map Item xs @ ys) = map (\<lambda>p. ProductRow (Item p)) xs @ flatten_rows n ys"
  using assms by (induction xs) simp_all

lemma flatten_rows_run:
  assumes "\<forall>p\<in>set xs. cat_key p = n" "xs \<noteq> []" "n \<noteq> l"
  shows "flatten_rows l (map Item xs @ ys)
       = CategoryRow n # map (\<lambda>p. ProductRow (Item p)) xs @ flatten_rows n ys"
proof (cases xs)
  case Nil
  with assms show ?thesis by simp
next
  case (Cons x xs')
  then have "cat_key x = n" "\<forall>p\<in>set xs'. cat_key p = n" using assms by simp_all
  then show ?thesis using assms(3) Cons by (simp add: flatten_rows_same)
qed

lemma flatten_rows_groups:
  assumes "distinct ns" "l \<notin> set ns" "\<forall>n\<in>set ns. \<forall>p\<in>set (g n). cat_key p = n"
  shows "flatten_rows l (concat (map (\<lambda>n. map Item (g n)) ns)) = concat (map (group_rows g) ns)"
  using assms
proof (induction ns arbitrary: l)
  case Nil
  then show ?case by simp
next
  case (Cons n ns)
  show ?case
  proof (cases "g n = []")
    case True
    then show ?thesis using Cons by (simp add: group_rows_def[of g n])
  next
    case False
    have k: "\<forall>p\<in>set (g n). cat_key p = n" using Cons.prems by simp
    have nl: "n \<noteq> l" using Cons.prems by auto
    have "flatten_rows l (map Item (g n) @ concat (map (\<lambda>n. map Item (g n)) ns))
        = CategoryRow n # map (\<lambda>p. ProductRow (Item p)) (g n)
            @ flatten_rows n (concat (map (\<lambda>n. map Item (g n)) ns))"
      using k False nl by (rule flatten_rows_run)
    moreover have "flatten_rows n (concat (map (\<lambda>n. map Item (g n)) ns))
        = concat (map (group_rows g) ns)"
      using Cons.prems by (intro Cons.IH) simp_all
    ultimately show ?thesis using False by (simp add: group_rows_def[of g n])
  qed
qed

lemma header_rows_groups:
  "header_rows (concat (map (group_rows g) ns)) = filter (\<lambda>n. g n \<noteq> []) ns"
  by (induction ns) (simp_all add: header_rows_def group_rows_def[of g])

lemma product_rows_groups:
  "product_rows (concat (map (group_rows g) ns)) = concat (map (\<lambda>n. map Item (g n)) ns)"
  by (induction ns) (simp_all add: product_rows_def group_rows_def[of g] comp_def)

lemma mset_concat_groups:
  assumes "distinct ns"
  shows "mset (concat (map (\<lambda>n. filter (\<lambda>p. f p = n) xs) ns))
       = mset (filter (\<lambda>p. f p \<in> set ns) xs)"
  using assms
proof (induction ns)
  case Nil
  then show ?case by simp
next
  case (Cons n ns)
  have "mset (filter (\<lambda>p. f p = n) xs) + mset (filter (\<lambda>p. f p \<in> set ns) xs)
      = mset (filter (\<lambda>p. f p = n \<or> f p \<in> set ns) xs)"
    using Cons.prems by (induction xs) auto
  then show ?case using Cons by simp
qed

lemma distinct_sorted_names:
  "distinct (map cat_name cs) \<Longrightarrow> distinct (map cat_name (sort_key sort_order cs))"
proof -
  have "mset (map cat_name (sort_key sort_order cs)) = mset (map cat_name cs)"
    by simp
  then show "distinct (map cat_name cs) \<Longrightarrow> distinct (map cat_name (sort_key sort_order cs))"
    by (metis mset_eq_imp_distinct_iff)
qed

lemma distinct_orderedCategories:
  "distinct (map cat_name cs) \<Longrightarrow> distinct (orderedCategories cs G)"
  using distinct_sorted_names[of cs]
  by (auto simp: orderedCategories_def Let_def)

text \<open>
  With no property name of \<open>Object.prototype\<close> among the category names,
  \<open>orderedCategories\<close> holds names with a group of their own only.
\<close>

lemma orderedCategories_safe:
  assumes "\<forall>c\<in>set cs. cat_name c \<notin> set Object_prototype_keys"
  shows "orderedCategories cs G =
     (let oc = filter (\<lambda>n. G n \<noteq> None) (map cat_name (sort_key sort_order cs))
      in if G uncategorized \<noteq> None \<and> uncategorized \<notin> set oc then oc @ [uncategorized] else oc)"
proof -
  have "filter (\<lambda>n. get_prop G n \<noteq> None) (map cat_name (sort_key sort_order cs))
      = filter (\<lambda>n. G n \<noteq> None) (map cat_name (sort_key sort_order cs))"
    using assms by (intro filter_cong refl) (auto simp: get_prop_safe)
  moreover have "get_prop G uncategorized \<noteq> None \<longleftrightarrow> G uncategorized \<noteq> None"
    by (simp add: get_prop_safe[OF uncategorized_not_prototype])
  ultimately show ?thesis by (simp add: orderedCategories_def Let_def)
qed

lemma orderedCategories_own:
  assumes "\<forall>c\<in>set cs. cat_name c \<notin> set Object_prototype_keys"
    and "n \<in> set (orderedCategories cs G)"
  shows "G n \<noteq> None \<and> n \<notin> set Object_prototype_keys"
  using assms(2) assms(1) uncategorized_not_prototype
  unfolding orderedCategories_safe[OF assms(1)]
  by (auto simp: Let_def split: if_splits)

lemma orderedCategories_covers:
  assumes "\<forall>c\<in>set cs. cat_name c \<notin> set Object_prototype_keys"
    and "G n \<noteq> None" "n = uncategorized \<or> n \<in> cat_name ` set cs"
  shows "n \<in> set (orderedCategories cs G)"
  using assms(2,3) unfolding orderedCategories_safe[OF assms(1)]
  by (auto simp: Let_def)

lemma items_of_groups_of:
  assumes "n \<notin> set Object_prototype_keys"
  shows "items_of (groups_of fs) n = map Item (filter (\<lambda>p. cat_key p = n) fs)"
  by (simp add: items_of_def get_prop_safe[OF assms] groups_of_def)

text \<open>
  The rows of the live view when neither a category name nor the key of a product that
  passes the filter is a property name of \<open>Object.prototype\<close>: group after group.
\<close>

lemma flattenedData_groups:
  assumes d: "distinct (map cat_name cs)"
    and s: "\<forall>c\<in>set cs. cat_name c \<notin> set Object_prototype_keys"
    and f: "\<forall>p\<in>set (filtered_products lc ck ps q sel sh). cat_key p \<notin> set Object_prototype_keys"
  shows "flattenedData lc ck ps cs q sel sh =
     Inr (concat (map (group_rows (\<lambda>n. filter (\<lambda>p. cat_key p = n)
                                     (filtered_products lc ck ps q sel sh)))
       (orderedCategories cs (groups_of (filtered_products lc ck ps q sel sh)))))"
proof -
  let ?F = "filtered_products lc ck ps q sel sh"
  let ?oc = "orderedCategories cs (groups_of ?F)"
  let ?g = "\<lambda>n. filter (\<lambda>p. cat_key p = n) ?F"
  have bg: "build_groups ?F = Inr (groups_of ?F)" using f by (rule build_groups_safe)
  have "[] \<notin> set ?oc"
  proof
    assume "[] \<in> set ?oc"
    then have "groups_of ?F [] \<noteq> None" using orderedCategories_own[OF s] by blast
    then have "[] \<in> cat_key ` set ?F" by (simp only: groups_of_defined)
    then show False using cat_key_nonempty by (metis imageE)
  qed
  moreover have "distinct ?oc" using d by (rule distinct_orderedCategories)
  ultimately have fl: "flatten_rows [] (concat (map (\<lambda>n. map Item (?g n)) ?oc))
      = concat (map (group_rows ?g) ?oc)"
    by (intro flatten_rows_groups) simp_all
  have "map (items_of (groups_of ?F)) ?oc = map (\<lambda>n. map Item (?g n)) ?oc"
    using orderedCategories_own[OF s] by (intro map_cong refl items_of_groups_of) blast
  then have "flatten_rows [] (concat (map (items_of (groups_of ?F)) ?oc))
      = concat (map (group_rows ?g) ?oc)"
    using fl by (simp only:)
  then show ?thesis
    by (simp add: flattenedData_def groupedData_def bg Let_def)
qed


lemma includes_str_empty [simp]: "includes_str s []"
  by (cases s) simp_all

lemma passes_filter_all:
  "lc [] = [] \<Longrightarrow> passes_filter lc [] ''all'' sh p \<longleftrightarrow> (sh \<or> is_hidden p = 0)"
  by (simp add: passes_filter_def)

lemma ascii_lower_Nil: "ascii_lower [] = []"
  by (simp add: ascii_lower_def)

lemmas sample_defs = sample_products_def sample_categories_def sample_product_def

lemma sample_safe_names: "\<forall>c\<in>set sample_categories. cat_name c \<notin> set Object_prototype_keys"
  by (simp add: sample_categories_def Object_prototype_keys_def)

lemma sample_flat:
  "flattenedData ascii_lower code_units sample_products sample_categories [] ''all'' False =
     Inr [CategoryRow ''A'', ProductRow (Item (sample_product 2 1 ''A'' 0 ''bb'' 0)),
      ProductRow (Item (sample_product 4 1 ''A'' 0 ''c'' 0)),
      CategoryRow ''B'', ProductRow (Item (sample_product 1 2 ''B'' 1 ''zz'' 0))]"
  by (simp add: flattenedData_def groupedData_def build_groups_def push_group_def get_prop_def
      items_of_def orderedCategories_def filtered_products_def sorted_products_def
      passes_filter_all ascii_lower_Nil Let_def sample_defs code_units_def cat_key_def
      uncategorized_def Object_prototype_keys_def)

lemma sample_flat_zz:
  "flattenedData ascii_lower code_units sample_products sample_categories ''zz'' ''all'' False =
     Inr [CategoryRow ''B'', ProductRow (Item (sample_product 1 2 ''B'' 1 ''zz'' 0))]"
  by (simp add: flattenedData_def groupedData_def build_groups_def push_group_def get_prop_def
      items_of_def orderedCategories_def filtered_products_def sorted_products_def
      passes_filter_def ascii_lower_def Let_def sample_defs code_units_def cat_key_def
      uncategorized_def Object_prototype_keys_def)

lemma sample_export:
  "export_rows code_units sample_products sample_categories False =
     [CategoryRow ''A'', ProductRow (Item (sample_product 2 1 ''A'' 0 ''bb'' 0)),
      ProductRow (Item (sample_product 4 1 ''A'' 0 ''c'' 0)),
      CategoryRow ''B'', ProductRow (Item (sample_product 1 2 ''B'' 1 ''zz'' 0))]"
  by (simp add: export_rows_def export_group_def Let_def sample_defs code_units_def)

text \<open>The theorem at the hidden product of the sample list.\<close>

theorem hidden_product_excluded_witness:
  "is_hidden (sample_product 3 1 ''A'' 0 ''a'' 1) \<noteq> 0
   \<and> sample_product 3 1 ''A'' 0 ''a'' 1 \<in> set sample_products
   \<and> ProductRow (Item (sample_product 3 1 ''A'' 0 ''a'' 1))
       \<notin> set (rows_of (flattenedData ascii_lower code_units sample_products sample_categories
                  ''a'' ''A'' False))
   \<and> ProductRow (Item (sample_product 3 1 ''A'' 0 ''a'' 1))
       \<notin> set (export_rows code_units sample_products sample_categories False)"
proof -
  have h: "is_hidden (sample_product 3 1 ''A'' 0 ''a'' 1) \<noteq> 0"
    by (simp add: sample_product_def)
  have m: "sample_product 3 1 ''A'' 0 ''a'' 1 \<in> set sample_products"
    by (simp add: sample_products_def)
  note t = hidden_product_excluded [OF h, of ascii_lower code_units sample_products
      sample_categories "''a''" "''A''"]
  show ?thesis
    by (intro conjI) (rule h m t[THEN conjunct1] t[THEN conjunct2])+
qed

text \<open>
  C6, as the code has it. The view rows are a function of the product list, the category list and
  the filter state. When the product list has no duplicates, the category names are
  distinct and none of them is a property name of \<open>Object.prototype\<close>, and every product
  that passes the filter has no category name or the name of a listed category, the
  rows are computed without an exception, no header occurs twice, no product occurs
  twice, and the product rows are the products that pass the filter, as many as these.
\<close>

theorem flattenedData_invariants:
  assumes "distinct prods" and "distinct (map cat_name cats)"
    and "\<forall>c\<in>set cats. cat_name c \<notin> set Object_prototype_keys"
    and "\<forall>p\<in>set prods. passes_filter lc q sel sh p
           \<longrightarrow> cat_key p = uncategorized \<or> cat_key p \<in> cat_name ` set cats"
  shows "\<exists>rows. flattenedData lc ck prods cats q sel sh = Inr rows
    \<and> distinct (header_rows rows)
    \<and> distinct (product_rows rows)
    \<and> length (product_rows rows) = length (filter (passes_filter lc q sel sh) prods)
    \<and> mset (product_rows rows) = mset (map Item (filter (passes_filter lc q sel sh) prods))"
proof -
  let ?F = "filtered_products lc ck prods q sel sh"
  let ?g = "\<lambda>n. filter (\<lambda>p. cat_key p = n) ?F"
  let ?oc = "orderedCategories cats (groups_of ?F)"
  let ?rows = "concat (map (group_rows ?g) ?oc)"
  have key: "cat_key p = uncategorized \<or> cat_key p \<in> cat_name ` set cats" if "p \<in> set ?F" for p
  proof -
    have "passes_filter lc q sel sh p" "p \<in> set prods"
      using that by (simp_all add: set_filtered_products)
    then show ?thesis using assms(4) by blast
  qed
  have safe: "\<forall>p\<in>set ?F. cat_key p \<notin> set Object_prototype_keys"
    using key assms(3) uncategorized_not_prototype by fastforce
  have fd: "flattenedData lc ck prods cats q sel sh = Inr ?rows"
    using assms(2,3) safe by (rule flattenedData_groups)
  have doc: "distinct ?oc" using assms(2) by (rule distinct_orderedCategories)
  have "header_rows ?rows = filter (\<lambda>n. ?g n \<noteq> []) ?oc" by (rule header_rows_groups)
  then have h: "distinct (header_rows ?rows)" using doc by simp
  have cov: "cat_key p \<in> set ?oc" if "p \<in> set ?F" for p
  proof -
    have "groups_of ?F (cat_key p) \<noteq> None"
      using that by (simp only: groups_of_defined) (rule imageI)
    then show ?thesis using key[OF that] by (intro orderedCategories_covers[OF assms(3)])
  qed
  have pr: "product_rows ?rows = map Item (concat (map ?g ?oc))"
    by (simp add: product_rows_groups map_concat comp_def)
  have "mset (concat (map ?g ?oc)) = mset (filter (\<lambda>p. cat_key p \<in> set ?oc) ?F)"
    using doc by (rule mset_concat_groups)
  also have "filter (\<lambda>p. cat_key p \<in> set ?oc) ?F = ?F"
    using cov by (simp add: filter_id_conv)
  finally have "mset (concat (map ?g ?oc)) = mset (filter (passes_filter lc q sel sh) prods)"
    by (simp add: mset_filtered_products)
  then have m: "mset (product_rows ?rows)
      = mset (map Item (filter (passes_filter lc q sel sh) prods))"
    unfolding pr by (simp only: mset_map)
  have "distinct (map Item (filter (passes_filter lc q sel sh) prods))"
    using assms(1) by (simp add: distinct_map inj_on_def)
  then have d: "distinct (product_rows ?rows)"
    using m by (metis mset_eq_imp_distinct_iff)
  have "length (product_rows ?rows)
      = length (map Item (filter (passes_filter lc q sel sh) prods))"
    using m by (metis size_mset)
  then have l: "length (product_rows ?rows) = length (filter (passes_filter lc q sel sh) prods)"
    by simp
  show ?thesis using fd h d l m by blast
qed

text \<open>The theorem at the sample lists, with no search text and every category.\<close>

theorem flattenedData_invariants_witness:
  "distinct sample_products \<and> distinct (map cat_name sample_categories)
   \<and> cat_name ` set sample_categories \<inter> set Object_prototype_keys = {}
   \<and> cat_key ` set (filter (passes_filter ascii_lower [] ''all'' False) sample_products)
       \<subseteq> cat_name ` set sample_categories
   \<and> (\<exists>rows. flattenedData ascii_lower code_units sample_products sample_categories
                [] ''all'' False = Inr rows
        \<and> distinct (header_rows rows)
        \<and> distinct (product_rows rows)
        \<and> length (product_rows rows)
            = length (filter (passes_filter ascii_lower [] ''all'' False) sample_products)
        \<and> mset (product_rows rows)
            = mset (map Item (filter (passes_filter ascii_lower [] ''all'' False)
                sample_products)))
   \<and> length (filter (passes_filter ascii_lower [] ''all'' False) sample_products) = 3"
proof -
  have a: "distinct sample_products" by (simp add: sample_defs)
  have b: "distinct (map cat_name sample_categories)" by (simp add: sample_defs)
  have c: "\<forall>p\<in>set sample_products. passes_filter ascii_lower [] ''all'' False p
         \<longrightarrow> cat_key p = uncategorized \<or> cat_key p \<in> cat_name ` set sample_categories"
    by (simp add: sample_defs cat_key_def)
  note t = flattenedData_invariants [OF a b sample_safe_names c, of code_units]
  have n: "length (filter (passes_filter ascii_lower [] ''all'' False) sample_products) = 3"
    by (simp add: passes_filter_all ascii_lower_Nil sample_defs)
  have s: "cat_key ` set (filter (passes_filter ascii_lower [] ''all'' False) sample_products)
       \<subseteq> cat_name ` set sample_categories"
    by (simp add: passes_filter_all ascii_lower_Nil sample_defs cat_key_def)
  have k: "cat_name ` set sample_categories \<inter> set Object_prototype_keys = {}"
    by (simp add: sample_categories_def Object_prototype_keys_def)
  show ?thesis
    by (intro conjI) (rule a b k s n t)+
qed

text \<open>
  C6, as it is worded, fails: a product whose category name is not in the category list
  passes the filter and has no row.
\<close>

theorem flattenedData_unlisted_category_counterexample:
  "flattenedData ascii_lower code_units [sample_product 1 7 ''X'' 0 ''a'' 0] [] [] ''all'' False
     = Inr []
   \<and> length (filter (passes_filter ascii_lower [] ''all'' False)
        [sample_product 1 7 ''X'' 0 ''a'' 0]) = 1"
  by (simp add: flattenedData_def groupedData_def build_groups_def push_group_def get_prop_def
      items_of_def orderedCategories_def filtered_products_def sorted_products_def
      passes_filter_all ascii_lower_Nil Let_def sample_product_def cat_key_def uncategorized_def
      Object_prototype_keys_def)

text \<open>
  The names that \<open>groups\<close> inherits: a category called \<open>constructor\<close> puts an inherited
  member among the products though no product is listed, and a product of that category
  makes \<open>push\<close> throw.
\<close>

lemma groupedData_inherited_name:
  "groupedData ascii_lower code_units [] [\<lparr>cat_id = 1, cat_name = ''constructor'', sort_order = 0\<rparr>]
      [] ''all'' False
     = Inr \<lparr>categories = [''constructor''], products = [Member ''constructor'']\<rparr>"
  by (simp add: groupedData_def build_groups_def get_prop_def items_of_def orderedCategories_def
      filtered_products_def sorted_products_def Let_def uncategorized_def
      Object_prototype_keys_def)

lemma groupedData_inherited_push:
  "groupedData ascii_lower code_units [sample_product 1 1 ''constructor'' 0 ''a'' 0]
      [\<lparr>cat_id = 1, cat_name = ''constructor'', sort_order = 0\<rparr>] [] ''all'' False
     = Inl TypeError"
  by (simp add: groupedData_def build_groups_def push_group_def get_prop_def
      filtered_products_def sorted_products_def passes_filter_all ascii_lower_Nil Let_def
      sample_product_def cat_key_def Object_prototype_keys_def)


lemma insort_key_pair_const:
  assumes "\<forall>y\<in>set ys. a y = a x"
  shows "insort_key (\<lambda>z. (a z, b z)) x ys = insort_key b x ys"
  using assms by (induction ys) simp_all

lemma sort_key_pair_const:
  assumes "\<forall>x\<in>set xs. a x = a0"
  shows "sort_key (\<lambda>z. (a z, b z)) xs = sort_key b xs"
  using assms
proof (induction xs)
  case Nil
  then show ?case by simp
next
  case (Cons x xs)
  then have ih: "sort_key (\<lambda>z. (a z, b z)) xs = sort_key b xs" by simp
  have "\<forall>y\<in>set (sort_key b xs). a y = a x" using Cons.prems by simp
  then show ?case by (simp add: ih insort_key_pair_const)
qed

lemma concat_map_filter_empty:
  assumes "\<forall>x\<in>set xs. \<not> P x \<longrightarrow> f x = []"
  shows "concat (map f (filter P xs)) = concat (map f xs)"
  using assms by (induction xs) simp_all

lemma joined_key:
  assumes j: "joined ps cs" and p: "p \<in> set ps"
  shows "cat_key p \<in> cat_name ` set cs \<and> cat_key p \<notin> set Object_prototype_keys"
proof -
  obtain c where c: "c \<in> set cs" "category_name p = cat_name c"
    using j p unfolding joined_def by blast
  have "cat_name c \<noteq> []" "cat_name c \<notin> set Object_prototype_keys"
    using j c(1) unfolding joined_def by blast+
  then show ?thesis using c by (simp add: cat_key_def)
qed

lemma joined_key_iff:
  assumes j: "joined ps cs" and p: "p \<in> set ps" and c: "c \<in> set cs"
  shows "cat_key p = cat_name c \<longleftrightarrow> category_id p = cat_id c"
proof -
  obtain c' where c': "c' \<in> set cs" "category_id p = cat_id c'" "category_name p = cat_name c'"
    using j p unfolding joined_def by blast
  have ne: "cat_name c' \<noteq> []" using j c' unfolding joined_def by blast
  then have k: "cat_key p = cat_name c'" using c' by (simp add: cat_key_def)
  have i1: "inj_on cat_name (set cs)" using j by (simp add: joined_def distinct_map)
  have i2: "inj_on cat_id (set cs)" using j by (simp add: joined_def distinct_map)
  show ?thesis
  proof
    assume "cat_key p = cat_name c"
    then have "c' = c" using k i1 c c' by (simp add: inj_on_def)
    then show "category_id p = cat_id c" using c' by simp
  next
    assume "category_id p = cat_id c"
    then have "c' = c" using i2 c c' by (simp add: inj_on_def)
    then show "cat_key p = cat_name c" using k by simp
  qed
qed

lemma joined_sort_order:
  assumes j: "joined ps cs" and p: "p \<in> set ps" and c: "c \<in> set cs"
    and e: "category_id p = cat_id c"
  shows "category_sort_order p = sort_order c"
proof -
  obtain c' where c': "c' \<in> set cs" "category_id p = cat_id c'"
      "category_sort_order p = sort_order c'"
    using j p unfolding joined_def by blast
  have "inj_on cat_id (set cs)" using j by (simp add: joined_def distinct_map)
  then have "c' = c" using c c' e by (simp add: inj_on_def)
  then show ?thesis using c' by simp
qed

text \<open>The group of a listed category is what the export shows under it.\<close>

lemma joined_group:
  assumes j: "joined ps cs" and c: "c \<in> set cs" and lc: "lc [] = []"
  shows "filter (\<lambda>p. cat_key p = cat_name c) (filtered_products lc ck ps [] ''all'' sh)
       = sort_key (\<lambda>p. ck (name p))
           (filter (\<lambda>p. category_id p = cat_id c \<and> (sh \<or> is_hidden p = 0)) ps)"
proof -
  let ?K = "\<lambda>p. (category_sort_order p, ck (name p))"
  let ?sel = "\<lambda>p. category_id p = cat_id c \<and> (sh \<or> is_hidden p = 0)"
  have "filter (\<lambda>p. cat_key p = cat_name c) (filtered_products lc ck ps [] ''all'' sh)
      = filter (\<lambda>p. (sh \<or> is_hidden p = 0) \<and> cat_key p = cat_name c) (sort_key ?K ps)"
    by (simp add: filtered_products_def sorted_products_def passes_filter_all[where lc = lc, OF lc] conj_commute)
  also have "\<dots> = sort_key ?K (filter (\<lambda>p. (sh \<or> is_hidden p = 0) \<and> cat_key p = cat_name c) ps)"
    by (rule filter_sort)
  also have "filter (\<lambda>p. (sh \<or> is_hidden p = 0) \<and> cat_key p = cat_name c) ps = filter ?sel ps"
    using joined_key_iff[OF j _ c] by (intro filter_cong) auto
  also have "sort_key ?K (filter ?sel ps) = sort_key (\<lambda>p. ck (name p)) (filter ?sel ps)"
  proof (rule sort_key_pair_const[where ?a0.0 = "sort_order c"])
    show "\<forall>x\<in>set (filter ?sel ps). category_sort_order x = sort_order c"
      using joined_sort_order[OF j _ c] by simp
  qed
  finally show ?thesis .
qed

lemma sort_key_Nil_iff: "sort_key f xs = [] \<longleftrightarrow> xs = []"
  by (metis length_0_conv length_sort)

lemma joined_no_bucket:
  assumes j: "joined ps cs"
  shows "orderedCategories cs (groups_of (filtered_products lc ck ps q sel sh))
       = filter (\<lambda>n. groups_of (filtered_products lc ck ps q sel sh) n \<noteq> None)
           (map cat_name (sort_key sort_order cs))"
proof -
  let ?F = "filtered_products lc ck ps q sel sh"
  let ?oc = "filter (\<lambda>n. groups_of ?F n \<noteq> None) (map cat_name (sort_key sort_order cs))"
  have s: "\<forall>c\<in>set cs. cat_name c \<notin> set Object_prototype_keys"
    using j unfolding joined_def by blast
  have "uncategorized \<in> set ?oc" if u: "groups_of ?F uncategorized \<noteq> None"
  proof -
    from u have "uncategorized \<in> cat_key ` set ?F" by (simp only: groups_of_defined)
    then obtain p where p: "p \<in> set ?F" "cat_key p = uncategorized" by auto
    then have "p \<in> set ps" by (simp add: set_filtered_products)
    then have "cat_key p \<in> cat_name ` set cs" using joined_key[OF j] by blast
    then have "uncategorized \<in> cat_name ` set cs" using p by simp
    then show ?thesis using u by simp
  qed
  then show ?thesis unfolding orderedCategories_safe[OF s] by (auto simp: Let_def)
qed

text \<open>
  C2, as the code has it. The export table takes no search text and no selected category. On a
  product list joined over the category list, its rows, headers and products alike, are
  the rows of the pipeline for the same lists and show-hidden flag with an empty search
  text and the category filter \<open>all\<close>. The lower-casing \<open>lc\<close> of the runtime is any
  function that keeps the empty text empty.
\<close>

theorem export_rows_pipeline:
  assumes "joined prods cats" and "lc [] = []"
  shows "flattenedData lc ck prods cats [] ''all'' sh = Inr (export_rows ck prods cats sh)
       \<and> product_rows (rows_of (flattenedData lc ck prods cats [] ''all'' sh))
           = product_rows (export_rows ck prods cats sh)"
proof -
  let ?F = "filtered_products lc ck prods [] ''all'' sh"
  let ?g = "\<lambda>n. filter (\<lambda>p. cat_key p = n) ?F"
  let ?sc = "sort_key sort_order cats"
  have d: "distinct (map cat_name cats)" using assms(1) by (simp add: joined_def)
  have s: "\<forall>c\<in>set cats. cat_name c \<notin> set Object_prototype_keys"
    using assms(1) unfolding joined_def by blast
  have f: "\<forall>p\<in>set ?F. cat_key p \<notin> set Object_prototype_keys"
    using joined_key[OF assms(1)] by (simp add: set_filtered_products)
  have "concat (map (group_rows ?g) (orderedCategories cats (groups_of ?F)))
      = concat (map (group_rows ?g)
          (filter (\<lambda>n. groups_of ?F n \<noteq> None) (map cat_name ?sc)))"
    by (simp only: joined_no_bucket[OF assms(1)])
  also have "\<dots> = concat (map (group_rows ?g) (map cat_name ?sc))"
    by (rule concat_map_filter_empty) (simp add: groups_of_def group_rows_def)
  also have "\<dots> = concat (map (\<lambda>c. group_rows ?g (cat_name c)) ?sc)"
    by (simp add: comp_def)
  also have "map (\<lambda>c. group_rows ?g (cat_name c)) ?sc = map (export_group ck prods sh) ?sc"
  proof (rule map_cong[OF refl])
    fix c assume "c \<in> set ?sc"
    then have c: "c \<in> set cats" by simp
    show "group_rows ?g (cat_name c) = export_group ck prods sh c"
      by (simp add: group_rows_def export_group_def Let_def joined_group[where lc = lc, OF assms(1) c assms(2)]
          sort_key_Nil_iff)
  qed
  finally have "concat (map (group_rows ?g) (orderedCategories cats (groups_of ?F)))
      = export_rows ck prods cats sh"
    by (simp add: export_rows_def)
  then have "flattenedData lc ck prods cats [] ''all'' sh = Inr (export_rows ck prods cats sh)"
    unfolding flattenedData_groups[OF d s f] by simp
  then show ?thesis by simp
qed

text \<open>The theorem at the sample lists.\<close>

theorem export_rows_pipeline_witness:
  "joined sample_products sample_categories \<and> ascii_lower [] = []
   \<and> flattenedData ascii_lower code_units sample_products sample_categories [] ''all'' False
       = Inr (export_rows code_units sample_products sample_categories False)
   \<and> product_rows (export_rows code_units sample_products sample_categories False)
       = [Item (sample_product 2 1 ''A'' 0 ''bb'' 0), Item (sample_product 4 1 ''A'' 0 ''c'' 0),
          Item (sample_product 1 2 ''B'' 1 ''zz'' 0)]"
proof -
  have j: "joined sample_products sample_categories"
    by (simp add: joined_def sample_defs Object_prototype_keys_def)
  note t = export_rows_pipeline [where lc = ascii_lower and ck = code_units and sh = False,
      OF j ascii_lower_Nil]
  have e: "product_rows (export_rows code_units sample_products sample_categories False)
       = [Item (sample_product 2 1 ''A'' 0 ''bb'' 0), Item (sample_product 4 1 ''A'' 0 ''c'' 0),
          Item (sample_product 1 2 ''B'' 1 ''zz'' 0)]"
    unfolding t[THEN conjunct2, symmetric] sample_flat by (simp add: product_rows_def)
  show ?thesis
    by (intro conjI) (rule j ascii_lower_Nil t[THEN conjunct1] e)+
qed

text \<open>
  C2, as it is worded, fails: with the search text \<open>zz\<close> the pipeline keeps one product
  of the sample list, and the export table still shows the three that are not hidden.
\<close>

theorem export_ignores_search_counterexample:
  "product_rows (rows_of (flattenedData ascii_lower code_units sample_products sample_categories
       ''zz'' ''all'' False))
     = [Item (sample_product 1 2 ''B'' 1 ''zz'' 0)]
   \<and> product_rows (export_rows code_units sample_products sample_categories False)
     = [Item (sample_product 2 1 ''A'' 0 ''bb'' 0), Item (sample_product 4 1 ''A'' 0 ''c'' 0),
        Item (sample_product 1 2 ''B'' 1 ''zz'' 0)]"
  by (simp add: sample_flat_zz sample_export product_rows_def)

end
